theory Spec2Isabelle
  imports Main "HOL-Library.Word" "HOL-Library.Log_Nat" "HOL-Library.Sublist"
begin

section \<open>JavaScript numbers\<close>

text \<open>
  A JavaScript Number is an IEEE 754 double. \<open>fl\<close> rounds an exact rational to the
  nearest double (53 significant bits, ties to even); every arithmetic operation of the
  source is the exact operation followed by \<open>fl\<close>. The exponent range is not bounded
  here: all numbers of the sizing routine come from 32-bit DOM attributes, so their
  magnitudes stay between \<open>2^-64\<close> and \<open>2^64\<close>, far from overflow and underflow.
  Negative zero is identified with zero: the routine never divides by a computed zero
  of negative sign, and \<open>String(-0)\<close> is \<open>0\<close>.
\<close>

definition rnd_even :: "rat \<Rightarrow> int" where
  "rnd_even t = (let f = \<lfloor>t\<rfloor>; r = t - of_int f in
     if r < 1/2 then f else if 1/2 < r then f + 1 else if even f then f else f + 1)"

definition ilog2 :: "rat \<Rightarrow> int" where
  "ilog2 x = (let (p, q) = quotient_of x; d = bitlen p - bitlen q in
     if 2 powi d \<le> x then d else d - 1)"

definition fl :: "rat \<Rightarrow> rat" where
  "fl x = (if x = 0 then 0 else
     let s = 2 powi (ilog2 \<bar>x\<bar> - 52) in sgn x * of_int (rnd_even (\<bar>x\<bar> / s)) * s)"

datatype number = Fin rat | PosInf | NegInf | NaN

fun num_div :: "number \<Rightarrow> number \<Rightarrow> number" where
  "num_div NaN _ = NaN"
| "num_div _ NaN = NaN"
| "num_div (Fin a) (Fin b) =
     (if b = 0 then (if a = 0 then NaN else if 0 < a then PosInf else NegInf)
      else Fin (fl (a / b)))"
| "num_div (Fin a) _ = Fin 0"
| "num_div PosInf (Fin b) = (if 0 \<le> b then PosInf else NegInf)"
| "num_div NegInf (Fin b) = (if 0 \<le> b then NegInf else PosInf)"
| "num_div _ _ = NaN"

fun num_mul :: "number \<Rightarrow> number \<Rightarrow> number" where
  "num_mul NaN _ = NaN"
| "num_mul _ NaN = NaN"
| "num_mul (Fin a) (Fin b) = Fin (fl (a * b))"
| "num_mul (Fin a) PosInf = (if a = 0 then NaN else if 0 < a then PosInf else NegInf)"
| "num_mul (Fin a) NegInf = (if a = 0 then NaN else if 0 < a then NegInf else PosInf)"
| "num_mul PosInf (Fin b) = (if b = 0 then NaN else if 0 < b then PosInf else NegInf)"
| "num_mul NegInf (Fin b) = (if b = 0 then NaN else if 0 < b then NegInf else PosInf)"
| "num_mul PosInf PosInf = PosInf"
| "num_mul NegInf NegInf = PosInf"
| "num_mul _ _ = NegInf"

fun num_sub :: "number \<Rightarrow> number \<Rightarrow> number" where
  "num_sub NaN _ = NaN"
| "num_sub _ NaN = NaN"
| "num_sub (Fin a) (Fin b) = Fin (fl (a - b))"
| "num_sub (Fin a) PosInf = NegInf"
| "num_sub (Fin a) NegInf = PosInf"
| "num_sub PosInf PosInf = NaN"
| "num_sub NegInf NegInf = NaN"
| "num_sub PosInf _ = PosInf"
| "num_sub NegInf _ = NegInf"

fun num_less :: "number \<Rightarrow> number \<Rightarrow> bool" where
  "num_less NaN _ = False"
| "num_less _ NaN = False"
| "num_less (Fin a) (Fin b) = (a < b)"
| "num_less (Fin a) PosInf = True"
| "num_less NegInf (Fin b) = True"
| "num_less NegInf PosInf = True"
| "num_less _ _ = False"

text \<open>\<open>Math.round\<close>: the nearest integer, a tie going towards plus infinity.\<close>

fun Math_round :: "number \<Rightarrow> number" where
  "Math_round (Fin x) = Fin (of_int \<lfloor>x + 1/2\<rfloor>)"
| "Math_round n = n"

text \<open>
  The DOM attributes read by the routine: \<open>videoWidth\<close> and \<open>videoHeight\<close> are
  \<open>unsigned long\<close>, \<open>clientWidth\<close> and \<open>clientHeight\<close> are \<open>long\<close>.
\<close>

definition of_ulong :: "32 word \<Rightarrow> number" where
  "of_ulong w = Fin (of_nat (unat w))"

definition of_long :: "32 word \<Rightarrow> number" where
  "of_long w = Fin (of_int (sint w))"

section \<open>Style objects\<close>

text \<open>
  The object returned by \<open>getStyle\<close> maps property names to strings. A value assigned
  to a property of an element's \<open>style\<close> is a string, a number, or a number with the
  suffix \<open>px\<close> appended.
\<close>

type_synonym style = "string \<rightharpoonup> string"

datatype css_val = Str string | Num int | Px number

type_synonym css = "string \<rightharpoonup> css_val"

datatype error = TypeError | SyntaxError

subsection \<open>parsePosition\<close>

text \<open>\<open>String.prototype.indexOf\<close>: the first index where the pattern occurs, or -1.\<close>

fun indexOf_from :: "int \<Rightarrow> string \<Rightarrow> string \<Rightarrow> int" where
  "indexOf_from i [] pat = (if pat = [] then i else - 1)"
| "indexOf_from i (c # cs) pat =
     (if prefix pat (c # cs) then i else indexOf_from (i + 1) cs pat)"

definition indexOf :: "string \<Rightarrow> string \<Rightarrow> int" where
  "indexOf s pat = indexOf_from 0 s pat"

text \<open>The test \<open>if (~n)\<close>: bitwise complement, truthy when it is not zero.\<close>

definition tilde :: "int \<Rightarrow> bool" where
  "tilde n = (not n \<noteq> 0)"

definition parsePosition :: "style \<Rightarrow> error + style" where
  "parsePosition style =
     (case style ''object-position'' of
        None \<Rightarrow> Inl TypeError
      | Some pos \<Rightarrow>
          let style =
                (if tilde (indexOf pos ''left'') then style(''object-position-x'' \<mapsto> ''left'')
                 else if tilde (indexOf pos ''right'') then style(''object-position-x'' \<mapsto> ''right'')
                 else style(''object-position-x'' \<mapsto> ''center''));
              style =
                (if tilde (indexOf pos ''top'') then style(''object-position-y'' \<mapsto> ''top'')
                 else if tilde (indexOf pos ''bottom'') then style(''object-position-y'' \<mapsto> ''bottom'')
                 else style(''object-position-y'' \<mapsto> ''center''))
          in Inr style)"

section \<open>doWork: the sizing\<close>

definition videoRatio :: "32 word \<Rightarrow> 32 word \<Rightarrow> number" where
  "videoRatio videoWidth videoHeight = num_div (of_ulong videoWidth) (of_ulong videoHeight)"

definition wrapRatio :: "32 word \<Rightarrow> 32 word \<Rightarrow> number" where
  "wrapRatio clientWidth clientHeight = num_div (of_long clientWidth) (of_long clientHeight)"

text \<open>The condition of the routine's only branch.\<close>

definition height_constrained :: "style \<Rightarrow> number \<Rightarrow> number \<Rightarrow> bool" where
  "height_constrained style vRatio wRatio =
     (if num_less vRatio wRatio then style ''object-fit'' = Some ''contain''
      else style ''object-fit'' = Some ''cover'')"

definition doWork :: "style \<Rightarrow> 32 word \<Rightarrow> 32 word \<Rightarrow> 32 word \<Rightarrow> 32 word \<Rightarrow> css \<Rightarrow> css" where
  "doWork style videoWidth videoHeight clientWidth clientHeight setCss =
     (let vRatio = videoRatio videoWidth videoHeight;
          wrapWidth = of_long clientWidth;
          wrapHeight = of_long clientHeight;
          wRatio = wrapRatio clientWidth clientHeight;
          setCss = setCss(''marginTop'' \<mapsto> Num 0, ''marginLeft'' \<mapsto> Num 0)
      in if height_constrained style vRatio wRatio then
           let newHeight = num_mul wrapHeight vRatio;
               setCss = setCss(''width'' \<mapsto> Px (Math_round newHeight),
                               ''height'' \<mapsto> Px wrapHeight)
           in if style ''object-position-x'' = Some ''left'' then
                setCss(''marginLeft'' \<mapsto> Num 0)
              else if style ''object-position-x'' = Some ''right'' then
                setCss(''marginLeft'' \<mapsto> Px (Math_round (num_sub wrapWidth newHeight)))
              else
                setCss(''marginLeft'' \<mapsto>
                  Px (Math_round (num_div (num_sub wrapWidth newHeight) (Fin 2))))
         else
           let newWidth = num_div wrapWidth vRatio;
               setCss = setCss(''width'' \<mapsto> Px wrapWidth,
                               ''height'' \<mapsto> Px (Math_round newWidth))
           in if style ''object-position-y'' = Some ''top'' then
                setCss(''marginTop'' \<mapsto> Num 0)
              else if style ''object-position-y'' = Some ''bottom'' then
                setCss(''marginTop'' \<mapsto> Px (Math_round (num_sub wrapHeight newWidth)))
              else
                setCss(''marginTop'' \<mapsto>
                  Px (Math_round (num_div (num_sub wrapHeight newWidth) (Fin 2)))))"

section \<open>getStyle: the style extractor\<close>

text \<open>
  Strings are lists of code units below 256. \<open>\s\<close> and \<open>\w\<close> are the classes of the
  regular expression \<open>/(object-fit|object-position)\s*:\s*([-\w\s%]+)/g\<close>; in this
  range \<open>\s\<close> is tab, line feed, vertical tab, form feed, carriage return, space and
  the no-break space.
\<close>

definition is_space :: "char \<Rightarrow> bool" where
  "is_space c = (of_char c \<in> {9, 10, 11, 12, 13, 32, 160 :: nat})"

definition is_word :: "char \<Rightarrow> bool" where
  "is_word c = (let n = of_char c :: nat in
     (48 \<le> n \<and> n \<le> 57) \<or> (65 \<le> n \<and> n \<le> 90) \<or> n = 95 \<or> (97 \<le> n \<and> n \<le> 122))"

definition is_value :: "char \<Rightarrow> bool" where
  "is_value c = (c = CHR ''-'' \<or> is_word c \<or> is_space c \<or> c = CHR ''%'')"

primrec strip_prefix :: "string \<Rightarrow> string \<Rightarrow> string option" where
  "strip_prefix [] s = Some s"
| "strip_prefix (p # ps) s =
     (case s of [] \<Rightarrow> None | c # cs \<Rightarrow> if c = p then strip_prefix ps cs else None)"

text \<open>
  The tail \<open>\s*:\s*([-\w\s%]+)\<close> of the pattern, matched at the start of a string:
  the captured value and what follows the match. Both quantifiers are greedy; when
  nothing but white space follows the colon, \<open>\s*\<close> gives its last character back to
  the group.
\<close>

definition match_value :: "string \<Rightarrow> (string \<times> string) option" where
  "match_value s =
     (case dropWhile is_space s of
        [] \<Rightarrow> None
      | c # t \<Rightarrow>
          if c \<noteq> CHR '':'' then None
          else let ws = takeWhile is_space t;
                   r = dropWhile is_space t;
                   v = takeWhile is_value r
               in if v \<noteq> [] then Some (v, dropWhile is_value r)
                  else if ws \<noteq> [] then Some ([last ws], r)
                  else None)"

definition match_name :: "string \<Rightarrow> string \<Rightarrow> (string \<times> string \<times> string) option" where
  "match_name name s =
     (case strip_prefix name s of
        None \<Rightarrow> None
      | Some t \<Rightarrow> (case match_value t of None \<Rightarrow> None | Some (v, r) \<Rightarrow> Some (name, v, r)))"

definition match_here :: "string \<Rightarrow> (string \<times> string \<times> string) option" where
  "match_here s =
     (case match_name ''object-fit'' s of
        Some m \<Rightarrow> Some m
      | None \<Rightarrow> match_name ''object-position'' s)"

text \<open>
  \<open>propRegex.exec\<close> on the part of the string from \<open>lastIndex\<close> on: the leftmost
  match, as (group 1, group 2, the string after the match), or \<open>None\<close> for \<open>null\<close>.
\<close>

fun exec :: "string \<Rightarrow> (string \<times> string \<times> string) option" where
  "exec [] = None"
| "exec (c # cs) = (case match_here (c # cs) of Some m \<Rightarrow> Some m | None \<Rightarrow> exec cs)"

lemma strip_prefix_length: "strip_prefix p s = Some t \<Longrightarrow> length t + length p = length s"
  by (induction p arbitrary: s) (auto split: list.splits if_splits)

lemma match_value_shorter: "match_value s = Some (v, r) \<Longrightarrow> length r < length s"
proof -
  assume m: "match_value s = Some (v, r)"
  obtain c t where ct: "dropWhile is_space s = c # t"
    using m unfolding match_value_def by (cases "dropWhile is_space s") auto
  have "length (c # t) \<le> length s" unfolding ct[symmetric] by (rule length_dropWhile_le)
  moreover have "length r \<le> length t"
  proof -
    have a: "length (dropWhile is_value (dropWhile is_space t)) \<le> length t"
      by (meson le_trans length_dropWhile_le)
    have b: "length (dropWhile is_space t) \<le> length t" by (rule length_dropWhile_le)
    show ?thesis using m a b unfolding match_value_def ct
      by (auto simp: Let_def split: if_splits)
  qed
  ultimately show ?thesis by simp
qed

lemma match_name_shorter: "match_name name s = Some (k, v, r) \<Longrightarrow> length r < length s"
  unfolding match_name_def
  by (auto split: option.splits dest!: strip_prefix_length match_value_shorter)

lemma exec_shorter: "exec s = Some (k, v, r) \<Longrightarrow> length r < length s"
proof (induction s)
  case Nil
  then show ?case by simp
next
  case (Cons c cs)
  show ?case
  proof (cases "match_here (c # cs)")
    case None
    then show ?thesis using Cons by fastforce
  next
    case (Some m)
    then have "match_here (c # cs) = Some (k, v, r)" using Cons.prems by simp
    then show ?thesis unfolding match_here_def
      by (auto split: option.splits dest: match_name_shorter)
  qed
qed

text \<open>The loop \<open>while ((parsed = propRegex.exec(style)) !== null) props[parsed[1]] = parsed[2]\<close>.\<close>

function getProps :: "style \<Rightarrow> string \<Rightarrow> style" where
  "getProps props s =
     (case exec s of
        None \<Rightarrow> props
      | Some (k, v, rest) \<Rightarrow> getProps (props(k \<mapsto> v)) rest)"
  by pat_completeness auto
termination
  by (relation "measure (\<lambda>(props, s). length s)") (auto dest: exec_shorter)

declare getProps.simps [simp del]

text \<open>A property value is truthy when it is present and not the empty string.\<close>

definition truthy :: "string option \<Rightarrow> bool" where
  "truthy v = (case v of None \<Rightarrow> False | Some s \<Rightarrow> s \<noteq> [])"

section \<open>The page\<close>

type_synonym node = nat

datatype target = Window | Element node

text \<open>
  The function objects the program registers: \<open>StartWork c\<close> is \<open>startWork\<close> of the
  \<open>c\<close>-th call of \<open>fitIt\<close>; \<open>VideoDimensionsMonitor c k\<close> and \<open>Ended c k\<close> are the two
  functions created by the \<open>k\<close>-th run of the else-branch of \<open>startWork\<close>; \<open>Func t\<close> is
  \<open>func\<close> of the \<open>t\<close>-th call of \<open>throttle\<close>.
\<close>

datatype listener = StartWork nat | VideoDimensionsMonitor nat nat | Ended nat nat | Func nat

text \<open>The variables of one call of \<open>fitIt\<close>, shared by its inner functions.\<close>

record closure =
  c_el :: node
  c_style :: style
  c_wrap :: node
  c_videoWidth :: "32 word"
  c_videoHeight :: "32 word"

text \<open>
  The variables of one call of \<open>throttle\<close>, with the callbacks it has handed to
  \<open>requestAnimationFrame\<close> that have not run yet and the events it has dispatched.
\<close>

record throttler =
  t_obj :: target
  t_evt :: string
  running :: bool
  scheduled :: nat
  dispatched :: "(target \<times> string) list"

record page =
  parentNode :: "node \<rightharpoonup> node"
  childNodes :: "node \<Rightarrow> node list"
  tagName :: "node \<rightharpoonup> string"
  el_style :: "node \<Rightarrow> css"
  listeners :: "(target \<times> string \<times> listener) list"
  timeouts :: "(nat \<times> listener) list"
  closures :: "closure list"
  throttlers :: "throttler list"
  nodes :: nat
  function_count :: nat

text \<open>What the platform reports when the program asks.\<close>

record env =
  supportsObjectFit :: bool
  supportsObjectPosition :: bool
  querySelectorAll :: "string \<Rightarrow> error + node list"
  el_fontFamily :: "node \<Rightarrow> string"
  el_computed :: "node \<Rightarrow> string \<Rightarrow> string"
  el_readyState :: "node \<Rightarrow> nat"
  el_videoWidth :: "node \<Rightarrow> 32 word"
  el_videoHeight :: "node \<Rightarrow> 32 word"
  el_clientWidth :: "node \<Rightarrow> 32 word"
  el_clientHeight :: "node \<Rightarrow> 32 word"

definition getStyle :: "env \<Rightarrow> node \<Rightarrow> error + style" where
  "getStyle env el =
     (let style = el_fontFamily env el;
          props = getProps Map.empty style
      in if truthy (props ''object-position'') then parsePosition props else Inr props)"

subsection \<open>DOM operations\<close>

definition createElement :: "string \<Rightarrow> page \<Rightarrow> node \<times> page" where
  "createElement name p =
     (nodes p, p\<lparr>nodes := Suc (nodes p), tagName := (tagName p)(nodes p \<mapsto> name)\<rparr>)"

definition detach :: "node \<Rightarrow> page \<Rightarrow> page" where
  "detach n p =
     (case parentNode p n of
        None \<Rightarrow> p
      | Some q \<Rightarrow> p\<lparr>childNodes := (childNodes p)(q := removeAll n (childNodes p q)),
                     parentNode := (parentNode p)(n := None)\<rparr>)"

definition replaceChild :: "node \<Rightarrow> node \<Rightarrow> node \<Rightarrow> page \<Rightarrow> page" where
  "replaceChild par new old p =
     (let p = detach new p
      in p\<lparr>childNodes :=
             (childNodes p)(par := map (\<lambda>n. if n = old then new else n) (childNodes p par)),
           parentNode := (parentNode p)(new \<mapsto> par, old := None)\<rparr>)"

definition appendChild :: "node \<Rightarrow> node \<Rightarrow> page \<Rightarrow> page" where
  "appendChild par n p =
     (let p = detach n p
      in p\<lparr>childNodes := (childNodes p)(par := childNodes p par @ [n]),
           parentNode := (parentNode p)(n \<mapsto> par)\<rparr>)"

definition addEventListener :: "target \<Rightarrow> string \<Rightarrow> listener \<Rightarrow> page \<Rightarrow> page" where
  "addEventListener t type f p =
     (if (t, type, f) \<in> set (listeners p) then p
      else p\<lparr>listeners := listeners p @ [(t, type, f)]\<rparr>)"

definition removeEventListener :: "target \<Rightarrow> string \<Rightarrow> listener \<Rightarrow> page \<Rightarrow> page" where
  "removeEventListener t type f p = p\<lparr>listeners := removeAll (t, type, f) (listeners p)\<rparr>"

definition setTimeout :: "listener \<Rightarrow> nat \<Rightarrow> page \<Rightarrow> page" where
  "setTimeout f delay p = p\<lparr>timeouts := timeouts p @ [(delay, f)]\<rparr>"

subsection \<open>fitIt and its inner functions\<close>

text \<open>\<open>doWork\<close> of the \<open>c\<close>-th call of \<open>fitIt\<close>, on the page.\<close>

definition doWork_of :: "env \<Rightarrow> nat \<Rightarrow> page \<Rightarrow> page" where
  "doWork_of env c p =
     (if length (closures p) \<le> c then p
      else
        let cl = closures p ! c; el = c_el cl
        in p\<lparr>el_style := (el_style p)(el :=
               doWork (c_style cl) (c_videoWidth cl) (c_videoHeight cl)
                 (el_clientWidth env (c_wrap cl)) (el_clientHeight env (c_wrap cl))
                 (el_style p el))\<rparr>)"

definition startWork :: "env \<Rightarrow> nat \<Rightarrow> page \<Rightarrow> page" where
  "startWork env c p =
     (if length (closures p) \<le> c then p
      else
        let cl = closures p ! c; el = c_el cl;
            cl = cl\<lparr>c_videoWidth := el_videoWidth env el, c_videoHeight := el_videoHeight env el\<rparr>;
            p = p\<lparr>closures := (closures p)[c := cl]\<rparr>
        in if c_videoWidth cl = 0 \<or> c_videoHeight cl = 0 then
             setTimeout (StartWork c) 50 p
           else
             let p = doWork_of env c p;
                 k = function_count p;
                 p = p\<lparr>function_count := Suc k\<rparr>;
                 p = addEventListener (Element el) ''timeupdate'' (VideoDimensionsMonitor c k) p
             in addEventListener (Element el) ''ended'' (Ended c k) p)"

definition videoDimensionsMonitor :: "env \<Rightarrow> nat \<Rightarrow> page \<Rightarrow> page" where
  "videoDimensionsMonitor env c p =
     (if length (closures p) \<le> c then p
      else
        let cl = closures p ! c; el = c_el cl
        in if el_videoWidth env el \<noteq> c_videoWidth cl \<or> el_videoHeight env el \<noteq> c_videoHeight cl
           then
             let cl = cl\<lparr>c_videoWidth := el_videoWidth env el,
                         c_videoHeight := el_videoHeight env el\<rparr>
             in doWork_of env c (p\<lparr>closures := (closures p)[c := cl]\<rparr>)
           else p)"

definition ended :: "nat \<Rightarrow> nat \<Rightarrow> page \<Rightarrow> page" where
  "ended c k p =
     (if length (closures p) \<le> c then p
      else
        let el = c_el (closures p ! c);
            p = removeEventListener (Element el) ''timeupdate'' (VideoDimensionsMonitor c k) p
        in removeEventListener (Element el) ''ended'' (Ended c k) p)"

definition copied :: "string list" where
  "copied = [''backgroundColor'', ''backgroundImage'', ''borderColor'', ''borderStyle'',
     ''borderWidth'', ''bottom'', ''fontSize'', ''lineHeight'', ''left'', ''opacity'',
     ''margin'', ''position'', ''right'', ''top'', ''visibility'']"

definition wrapCss :: "env \<Rightarrow> node \<Rightarrow> css" where
  "wrapCss env el =
     foldl (\<lambda>css key. css(key \<mapsto> Str (el_computed env el key)))
       [''height'' \<mapsto> Str ''100%'', ''width'' \<mapsto> Str ''100%'',
        ''boxSizing'' \<mapsto> Str ''content-box'', ''display'' \<mapsto> Str ''inline-block'',
        ''overflow'' \<mapsto> Str ''hidden'']
       copied"

definition fitIt :: "env \<Rightarrow> node \<Rightarrow> style \<Rightarrow> page \<Rightarrow> error + page" where
  "fitIt env el style p =
     (if style ''object-fit'' = Some ''fill'' then Inr p
      else
        let (wrap, p) = createElement ''object-fit'' p
        in case parentNode p el of
             None \<Rightarrow> Inl TypeError
           | Some par \<Rightarrow>
               let p = appendChild wrap el (replaceChild par wrap el p);
                   p = p\<lparr>el_style := (el_style p)(wrap := el_style p wrap ++ wrapCss env el)\<rparr>;
                   p = p\<lparr>el_style := (el_style p)(el := (el_style p el)
                          (''padding'' \<mapsto> Num 0, ''margin'' \<mapsto> Num 0, ''border'' \<mapsto> Num 0,
                           ''display'' \<mapsto> Str ''block'', ''opacity'' \<mapsto> Num 1))\<rparr>;
                   c = length (closures p);
                   p = p\<lparr>closures := closures p @
                          [\<lparr>c_el = el, c_style = style, c_wrap = wrap,
                            c_videoWidth = 0, c_videoHeight = 0\<rparr>]\<rparr>;
                   p = addEventListener (Element el) ''loadedmetadata'' (StartWork c) p;
                   p = addEventListener Window ''optimizedResize'' (StartWork c) p
               in if 1 \<le> el_readyState env el then
                    Inr (startWork env c
                          (removeEventListener (Element el) ''loadedmetadata'' (StartWork c) p))
                  else Inr p)"

subsection \<open>initialize and the entry point\<close>

text \<open>
  The argument of the entry point: nothing, a string, an element, or an array-like
  collection whose entries are elements or falsy holes.
\<close>

datatype videos = Undefined | Selector string | Single node | Collection "node option list"

text \<open>The loop \<open>while (videos[++index])\<close>: it ends at the first falsy entry.\<close>

fun each_video :: "env \<Rightarrow> node option list \<Rightarrow> page \<Rightarrow> error + page" where
  "each_video env [] p = Inr p"
| "each_video env (None # rest) p = Inr p"
| "each_video env (Some el # rest) p =
     (case getStyle env el of
        Inl e \<Rightarrow> Inl e
      | Inr style \<Rightarrow>
          if truthy (style ''object-fit'') \<or> truthy (style ''object-position'') then
            let style = style(''object-fit'' \<mapsto>
                  (case style ''object-fit'' of
                     None \<Rightarrow> ''fill''
                   | Some v \<Rightarrow> if v \<noteq> [] then v else ''fill''))
            in case fitIt env el style p of
                 Inl e \<Rightarrow> Inl e
               | Inr p \<Rightarrow> each_video env rest p
          else each_video env rest p)"

fun falsy :: "videos \<Rightarrow> bool" where
  "falsy Undefined = True"
| "falsy (Selector s) = (s = [])"
| "falsy (Single el) = False"
| "falsy (Collection els) = False"

text \<open>
  After the default is taken the argument is no longer \<open>undefined\<close>; the operator
  \<open>in\<close> would throw a \<open>TypeError\<close> on it.
\<close>

definition initialize :: "env \<Rightarrow> videos \<Rightarrow> page \<Rightarrow> error + page" where
  "initialize env videos p =
     (let videos = (if falsy videos then Selector ''video'' else videos)
      in case videos of
           Selector s \<Rightarrow>
             (case querySelectorAll env s of
                Inl e \<Rightarrow> Inl e
              | Inr ns \<Rightarrow> each_video env (map Some ns) p)
         | Single el \<Rightarrow> each_video env [Some el] p
         | Collection els \<Rightarrow> each_video env els p
         | Undefined \<Rightarrow> Inl TypeError)"

text \<open>
  \<open>throttle\<close>: the synthetic event is created (by \<open>CustomEvent\<close>, or by
  \<open>createEvent\<close> where the constructor throws), and \<open>func\<close> is registered for the
  source event.
\<close>

definition throttle :: "string \<Rightarrow> string \<Rightarrow> target option \<Rightarrow> page \<Rightarrow> page" where
  "throttle type name obj p =
     (let obj = (case obj of None \<Rightarrow> Window | Some t \<Rightarrow> t);
          t = length (throttlers p);
          p = p\<lparr>throttlers := throttlers p @
                 [\<lparr>t_obj = obj, t_evt = name, running = False, scheduled = 0, dispatched = []\<rparr>]\<rparr>
      in addEventListener obj type (Func t) p)"

text \<open>\<open>func\<close>, the callback it gives to \<open>requestAnimationFrame\<close>, and an animation frame.\<close>

definition func :: "throttler \<Rightarrow> throttler" where
  "func t = (if running t then t else t\<lparr>running := True, scheduled := Suc (scheduled t)\<rparr>)"

definition frame_callback :: "throttler \<Rightarrow> throttler" where
  "frame_callback t = t\<lparr>dispatched := dispatched t @ [(t_obj t, t_evt t)], running := False\<rparr>"

definition animation_frame :: "throttler \<Rightarrow> throttler" where
  "animation_frame t = (frame_callback ^^ scheduled t) (t\<lparr>scheduled := 0\<rparr>)"

definition objectFitVideos :: "env \<Rightarrow> videos \<Rightarrow> page \<Rightarrow> error + page" where
  "objectFitVideos env videos p =
     (if \<not> supportsObjectFit env \<or> \<not> supportsObjectPosition env then
        case initialize env videos p of
          Inl e \<Rightarrow> Inl e
        | Inr p \<Rightarrow> Inr (throttle ''resize'' ''optimizedResize'' None p)
      else Inr p)"

text \<open>
  Calling a registered function object, as the platform does when an event it is
  registered for is delivered (or a timeout it was given to fires).
\<close>

definition call_listener :: "env \<Rightarrow> listener \<Rightarrow> page \<Rightarrow> page" where
  "call_listener env f p =
     (case f of
        StartWork c \<Rightarrow> startWork env c p
      | VideoDimensionsMonitor c k \<Rightarrow> videoDimensionsMonitor env c p
      | Ended c k \<Rightarrow> ended c k p
      | Func t \<Rightarrow>
          if length (throttlers p) \<le> t then p
          else p\<lparr>throttlers := (throttlers p)[t := func (throttlers p ! t)]\<rparr>)"

section \<open>The specification's wording and example inputs\<close>

text \<open>
  The Position Resolver as the specification words it: case-sensitive substring
  containment, \<open>left\<close> before \<open>right\<close> and \<open>top\<close> before \<open>bottom\<close>.
\<close>

definition spec_positionX :: "string \<Rightarrow> string" where
  "spec_positionX s =
     (if sublist ''left'' s then ''left'' else if sublist ''right'' s then ''right'' else ''center'')"

definition spec_positionY :: "string \<Rightarrow> string" where
  "spec_positionY s =
     (if sublist ''top'' s then ''top'' else if sublist ''bottom'' s then ''bottom'' else ''center'')"

text \<open>
  A platform without native support, every element reporting the given font family, no
  metadata loaded, and a 400 x 300 client box; a page with one video element (node 1) in
  the body (node 0).
\<close>

definition example_env :: "string \<Rightarrow> env" where
  "example_env fontFamily =
     \<lparr>supportsObjectFit = False, supportsObjectPosition = False,
      querySelectorAll = (\<lambda>s. if s = [] then Inl SyntaxError
                              else if s = ''video'' then Inr [1] else Inr []),
      el_fontFamily = (\<lambda>n. fontFamily), el_computed = (\<lambda>n key. []),
      el_readyState = (\<lambda>n. 0), el_videoWidth = (\<lambda>n. 0), el_videoHeight = (\<lambda>n. 0),
      el_clientWidth = (\<lambda>n. 400), el_clientHeight = (\<lambda>n. 300)\<rparr>"

definition example_page :: page where
  "example_page =
     \<lparr>parentNode = [1 \<mapsto> 0], childNodes = (\<lambda>n. if n = 0 then [1] else []),
      tagName = [0 \<mapsto> ''body'', 1 \<mapsto> ''video''], el_style = (\<lambda>n. Map.empty),
      listeners = [], timeouts = [], closures = [], throttlers = [],
      nodes = 2, function_count = 0\<rparr>"

text \<open>The example page after \<open>fitIt\<close> has wrapped its video for \<open>cover\<close>.\<close>

definition example_fitted :: page where
  "example_fitted =
     projr (fitIt (example_env ''object-fit: cover'') 1 [''object-fit'' \<mapsto> ''cover''] example_page)"

text \<open>An element is wrapped when its parent is an \<open>object-fit\<close> element.\<close>

definition wrapped :: "page \<Rightarrow> node \<Rightarrow> bool" where
  "wrapped p el =
     (case parentNode p el of None \<Rightarrow> False | Some w \<Rightarrow> tagName p w = Some ''object-fit'')"

section \<open>Properties of the number model\<close>

lemma rnd_even_err: "\<bar>of_int (rnd_even t) - t\<bar> \<le> 1/2"
proof -
  define f where "f = \<lfloor>t\<rfloor>"
  define r where "r = t - of_int f"
  have r0: "0 \<le> r" and r1: "r < 1" unfolding r_def f_def by linarith+
  have t: "t = of_int f + r" unfolding r_def by simp
  have "rnd_even t = f \<and> r \<le> 1/2 \<or> rnd_even t = f + 1 \<and> 1/2 \<le> r"
    unfolding rnd_even_def Let_def f_def[symmetric] r_def[symmetric] by auto
  then show ?thesis using r0 r1 unfolding t by auto
qed

lemma ilog2_le: assumes "0 < x" shows "2 powi (ilog2 x) \<le> x"
proof -
  obtain p q where pq: "quotient_of x = (p, q)" by (cases "quotient_of x")
  have q: "0 < q" using pq quotient_of_denom_pos by blast
  have x: "x = of_int p / of_int q" using pq quotient_of_div by blast
  have p: "0 < p" using assms q unfolding x by (simp add: zero_less_divide_iff)
  define d where "d = bitlen p - bitlen q"
  have e: "ilog2 x = (if 2 powi d \<le> x then d else d - 1)"
    unfolding ilog2_def pq d_def by simp
  have bp: "2 ^ nat (bitlen p - 1) \<le> p" using bitlen_bounds[OF p] by simp
  have bq: "q < 2 ^ nat (bitlen q)" using bitlen_bounds[OF q] by simp
  have bp1: "1 \<le> bitlen p" using p bitlen_eq_zero_iff[of p] bitlen_nonneg[of p] by linarith
  have bq1: "1 \<le> bitlen q" using q bitlen_eq_zero_iff[of q] bitlen_nonneg[of q] by linarith
  have dd: "d - 1 = (bitlen p - 1) - bitlen q" unfolding d_def by simp
  have "(2::rat) powi (d - 1) = 2 powi (bitlen p - 1) / 2 powi (bitlen q)"
    unfolding dd by (rule power_int_diff) simp
  also have "\<dots> = 2 ^ nat (bitlen p - 1) / 2 ^ nat (bitlen q)"
    using bp1 bq1 by (simp add: power_int_def)
  also have "\<dots> \<le> of_int p / of_int q"
  proof -
    have a: "(2::rat) ^ nat (bitlen p - 1) \<le> of_int p"
      using bp by (metis of_int_le_iff of_int_numeral of_int_power)
    have b: "of_int q \<le> (2::rat) ^ nat (bitlen q)"
      using bq by (metis less_imp_le of_int_le_iff of_int_numeral of_int_power)
    show ?thesis using a b p q by (intro frac_le) auto
  qed
  finally have "(2::rat) powi (d - 1) \<le> x" unfolding x .
  then show ?thesis unfolding e by simp
qed


lemma ilog2_gt: assumes "0 < x" shows "x < 2 powi (ilog2 x + 1)"
proof -
  obtain p q where pq: "quotient_of x = (p, q)" by (cases "quotient_of x")
  have q: "0 < q" using pq quotient_of_denom_pos by blast
  have x: "x = of_int p / of_int q" using pq quotient_of_div by blast
  have p: "0 < p" using assms q unfolding x by (simp add: zero_less_divide_iff)
  define d where "d = bitlen p - bitlen q"
  have e: "ilog2 x = (if 2 powi d \<le> x then d else d - 1)"
    unfolding ilog2_def pq d_def by simp
  have bp: "p < 2 ^ nat (bitlen p)" using bitlen_bounds[OF p] by simp
  have bq: "2 ^ nat (bitlen q - 1) \<le> q" using bitlen_bounds[OF q] by simp
  have bp1: "1 \<le> bitlen p" using p bitlen_eq_zero_iff[of p] bitlen_nonneg[of p] by linarith
  have bq1: "1 \<le> bitlen q" using q bitlen_eq_zero_iff[of q] bitlen_nonneg[of q] by linarith
  have dd: "d + 1 = bitlen p - (bitlen q - 1)" unfolding d_def by simp
  have a: "of_int p < (2::rat) ^ nat (bitlen p)"
    using bp by (metis of_int_less_iff of_int_numeral of_int_power)
  have b: "(2::rat) ^ nat (bitlen q - 1) \<le> of_int q"
    using bq by (metis of_int_le_iff of_int_numeral of_int_power)
  have "of_int p / of_int q < (2::rat) ^ nat (bitlen p) / 2 ^ nat (bitlen q - 1)"
    using a b p q by (intro frac_less) auto
  also have "\<dots> = 2 powi (bitlen p) / 2 powi (bitlen q - 1)"
    using bp1 bq1 by (simp add: power_int_def)
  also have "\<dots> = 2 powi (d + 1)"
    unfolding dd by (rule power_int_diff[symmetric]) simp
  finally have "x < 2 powi (d + 1)" unfolding x .
  then show ?thesis unfolding e by (auto simp: not_le)
qed

lemma fl_err: assumes "0 < x" shows "\<bar>fl x - x\<bar> \<le> x / 2 ^ 53"
proof -
  define s :: rat where "s = 2 powi (ilog2 x - 52)"
  have s: "0 < s" unfolding s_def by simp
  have f: "fl x = of_int (rnd_even (x / s)) * s"
    using assms unfolding fl_def s_def Let_def by simp
  have "fl x - x = (of_int (rnd_even (x / s)) - x / s) * s"
    unfolding f using s by (simp add: left_diff_distrib)
  then have "\<bar>fl x - x\<bar> = \<bar>of_int (rnd_even (x / s)) - x / s\<bar> * s"
    using s by (simp add: abs_mult)
  also have "\<dots> \<le> 1/2 * s"
    using rnd_even_err[of "x / s"] s by (intro mult_right_mono) auto
  also have "s = 2 powi (ilog2 x) / 2 ^ 52"
    unfolding s_def by (subst power_int_diff) auto
  also have "1/2 * (2 powi (ilog2 x) / 2 ^ 52) \<le> 1/2 * (x / 2 ^ 52)"
    using ilog2_le[OF assms] by (simp add: divide_right_mono)
  finally show ?thesis by simp
qed

lemma fl_upper: assumes "0 < x" shows "fl x \<le> x * (1 + 1 / 2 ^ 53)"
proof -
  have "fl x - x \<le> x / 2 ^ 53" using fl_err[OF assms] by linarith
  then show ?thesis by (simp add: algebra_simps)
qed

lemma fl_lower: assumes "0 < x" shows "x * (1 - 1 / 2 ^ 53) \<le> fl x"
proof -
  have "x - fl x \<le> x / 2 ^ 53" using fl_err[OF assms] by linarith
  then show ?thesis by (simp add: algebra_simps)
qed

lemma fl_pos: assumes "0 < x" shows "0 < fl x"
proof -
  have "0 < x * (1 - 1 / 2 ^ 53)" using assms by simp
  then show ?thesis using fl_lower[OF assms] by linarith
qed

lemma slack_up: fixes c :: rat assumes "0 < c" "c \<le> 2 ^ 32"
  shows "c * (1 + 1 / 2 ^ 53) * (1 + 1 / 2 ^ 53) < c + 1/2" (is "c * ?u * ?u < _")
proof -
  have "?u * ?u \<le> 1 + 1 / 2 ^ 50" by simp
  then have "c * (?u * ?u) \<le> c * (1 + 1 / 2 ^ 50)" using assms(1) by (intro mult_left_mono) auto
  also have "\<dots> = c + c / 2 ^ 50" by (simp add: algebra_simps)
  also have "c / 2 ^ 50 \<le> 2 ^ 32 / 2 ^ 50" using assms(2) by (intro divide_right_mono) auto
  finally show ?thesis by (simp add: mult.assoc)
qed

lemma slack_down: fixes c :: rat assumes "0 < c" "c \<le> 2 ^ 32"
  shows "c - 1/2 \<le> c * (1 - 1 / 2 ^ 53) * (1 - 1 / 2 ^ 53)" (is "_ \<le> c * ?u * ?u")
proof -
  have "1 - 1 / 2 ^ 50 \<le> ?u * ?u" by simp
  then have "c * (1 - 1 / 2 ^ 50) \<le> c * (?u * ?u)" using assms(1) by (intro mult_left_mono) auto
  moreover have "c * (1 - 1 / 2 ^ 50) = c - c / 2 ^ 50" by (simp add: algebra_simps)
  moreover have "c / 2 ^ 50 \<le> 2 ^ 32 / 2 ^ 50" using assms(2) by (intro divide_right_mono) auto
  ultimately show ?thesis by (simp add: mult.assoc)
qed

lemma slack_div_up: fixes c :: rat assumes "0 < c" "c \<le> 2 ^ 32"
  shows "c / (1 - 1 / 2 ^ 53) * (1 + 1 / 2 ^ 53) < c + 1/2"
proof -
  have "(1 + 1 / 2 ^ 53) / (1 - 1 / 2 ^ 53) \<le> (1 + 1 / 2 ^ 50 :: rat)" by simp
  then have "c * ((1 + 1 / 2 ^ 53) / (1 - 1 / 2 ^ 53)) \<le> c * (1 + 1 / 2 ^ 50)"
    using assms(1) by (intro mult_left_mono) auto
  also have "\<dots> = c + c / 2 ^ 50" by (simp add: algebra_simps)
  also have "c / 2 ^ 50 \<le> 2 ^ 32 / 2 ^ 50" using assms(2) by (intro divide_right_mono) auto
  finally show ?thesis by simp
qed

lemma slack_div_down: fixes c :: rat assumes "0 < c" "c \<le> 2 ^ 32"
  shows "c - 1/2 \<le> c / (1 + 1 / 2 ^ 53) * (1 - 1 / 2 ^ 53)"
proof -
  have "(1 - 1 / 2 ^ 50 :: rat) \<le> (1 - 1 / 2 ^ 53) / (1 + 1 / 2 ^ 53)" by simp
  then have "c * (1 - 1 / 2 ^ 50) \<le> c * ((1 - 1 / 2 ^ 53) / (1 + 1 / 2 ^ 53))"
    using assms(1) by (intro mult_left_mono) auto
  moreover have "c * (1 - 1 / 2 ^ 50) = c - c / 2 ^ 50" by (simp add: algebra_simps)
  moreover have "c / 2 ^ 50 \<le> 2 ^ 32 / 2 ^ 50" using assms(2) by (intro divide_right_mono) auto
  ultimately show ?thesis by simp
qed


lemma contain_height_fits:
  assumes "0 < A" "0 < B" "0 < C" "0 < D" "C \<le> 2 ^ 32" and lt: "fl (A / B) < fl (C / D)"
  shows "fl (D * fl (A / B)) < C + 1/2"
proof -
  let ?U = "1 + 1 / 2 ^ 53 :: rat"
  have vr: "0 < fl (A / B)" using assms by (intro fl_pos) simp
  have wr: "fl (C / D) \<le> C / D * ?U" using assms by (intro fl_upper) simp
  have "fl (D * fl (A / B)) \<le> D * fl (A / B) * ?U" using vr assms by (intro fl_upper) simp
  also have "\<dots> \<le> D * fl (C / D) * ?U"
    using lt assms by (intro mult_right_mono mult_left_mono) auto
  also have "\<dots> \<le> D * (C / D * ?U) * ?U"
    using wr assms by (intro mult_right_mono mult_left_mono) auto
  also have "\<dots> = C * ?U * ?U" using assms by simp
  also have "\<dots> < C + 1/2" using assms by (intro slack_up) auto
  finally show ?thesis .
qed

lemma cover_height_covers:
  assumes "0 < A" "0 < B" "0 < C" "0 < D" "C \<le> 2 ^ 32" and ge: "\<not> fl (A / B) < fl (C / D)"
  shows "C - 1/2 \<le> fl (D * fl (A / B))"
proof -
  let ?L = "1 - 1 / 2 ^ 53 :: rat"
  have wrp: "0 < fl (C / D)" using assms by (intro fl_pos) simp
  then have vr: "0 < fl (A / B)" using ge by linarith
  have wr: "C / D * ?L \<le> fl (C / D)" using assms by (intro fl_lower) simp
  have "C - 1/2 \<le> C * ?L * ?L" using assms by (intro slack_down) auto
  also have "\<dots> = D * (C / D * ?L) * ?L" using assms by simp
  also have "\<dots> \<le> D * fl (C / D) * ?L"
    using wr assms by (intro mult_right_mono mult_left_mono) auto
  also have "\<dots> \<le> D * fl (A / B) * ?L"
    using ge assms by (intro mult_right_mono mult_left_mono) auto
  also have "\<dots> \<le> fl (D * fl (A / B))" using vr assms by (intro fl_lower) simp
  finally show ?thesis .
qed

lemma contain_width_fits:
  assumes "0 < A" "0 < B" "0 < C" "0 < D" "D \<le> 2 ^ 32" and ge: "\<not> fl (A / B) < fl (C / D)"
  shows "fl (C / fl (A / B)) < D + 1/2"
proof -
  let ?U = "1 + 1 / 2 ^ 53 :: rat" and ?L = "1 - 1 / 2 ^ 53 :: rat"
  have wrp: "0 < fl (C / D)" using assms by (intro fl_pos) simp
  then have vr: "0 < fl (A / B)" using ge by linarith
  have wr: "C / D * ?L \<le> fl (C / D)" using assms by (intro fl_lower) simp
  have lo: "0 < C / D * ?L" using assms by simp
  have "fl (C / fl (A / B)) \<le> C / fl (A / B) * ?U" using vr assms by (intro fl_upper) simp
  also have "\<dots> \<le> C / fl (C / D) * ?U"
    using ge wrp assms by (intro mult_right_mono divide_left_mono) auto
  also have "\<dots> \<le> C / (C / D * ?L) * ?U"
    using wr lo wrp assms by (intro mult_right_mono divide_left_mono) auto
  also have "\<dots> = D / ?L * ?U" using assms by simp
  also have "\<dots> < D + 1/2" using assms by (intro slack_div_up) auto
  finally show ?thesis .
qed

lemma cover_width_covers:
  assumes "0 < A" "0 < B" "0 < C" "0 < D" "D \<le> 2 ^ 32" and lt: "fl (A / B) < fl (C / D)"
  shows "D - 1/2 \<le> fl (C / fl (A / B))"
proof -
  let ?U = "1 + 1 / 2 ^ 53 :: rat" and ?L = "1 - 1 / 2 ^ 53 :: rat"
  have vr: "0 < fl (A / B)" using assms by (intro fl_pos) simp
  have wrp: "0 < fl (C / D)" using assms by (intro fl_pos) simp
  have wr: "fl (C / D) \<le> C / D * ?U" using assms by (intro fl_upper) simp
  have "D - 1/2 \<le> D / ?U * ?L" using assms by (intro slack_div_down) auto
  also have "\<dots> = C / (C / D * ?U) * ?L" using assms by simp
  also have "\<dots> \<le> C / fl (C / D) * ?L"
    using wr wrp assms by (intro mult_right_mono divide_left_mono) auto
  also have "\<dots> \<le> C / fl (A / B) * ?L"
    using lt vr wrp assms by (intro mult_right_mono divide_left_mono) auto
  also have "\<dots> \<le> fl (C / fl (A / B))" using vr assms by (intro fl_lower) simp
  finally show ?thesis .
qed

section \<open>Properties of the sizing\<close>

lemma ulong_pos: "0 < unat w \<Longrightarrow> (0::rat) < of_nat (unat w)"
  by (simp only: of_nat_0_less_iff)

lemma long_pos: "0 < sint w \<Longrightarrow> (0::rat) < of_int (sint w)"
  by (simp only: of_int_0_less_iff)

lemma long_bound: "(of_int (sint (w :: 32 word)) :: rat) \<le> 2 ^ 32"
proof -
  have "sint w < 2 ^ 31" using sint_lt[of w] by simp
  then have "sint w \<le> 2 ^ 32" by simp
  then have "(of_int (sint w) :: rat) \<le> of_int (2 ^ 32)" by (rule iffD2[OF of_int_le_iff])
  then show ?thesis by simp
qed

lemma doWork_sizes:
  fixes videoWidth videoHeight clientWidth clientHeight :: "32 word"
  assumes "0 < unat videoWidth" "0 < unat videoHeight" "0 < sint clientWidth" "0 < sint clientHeight"
  defines "A \<equiv> of_nat (unat videoWidth)" and "B \<equiv> of_nat (unat videoHeight)"
    and "C \<equiv> of_int (sint clientWidth)" and "D \<equiv> of_int (sint clientHeight)"
  shows "videoRatio videoWidth videoHeight = Fin (fl (A / B))"
    and "wrapRatio clientWidth clientHeight = Fin (fl (C / D))"
    and "0 < fl (A / B)" and "0 < fl (C / D)"
    and "height_constrained style (Fin (fl (A / B))) (Fin (fl (C / D))) \<Longrightarrow>
         doWork style videoWidth videoHeight clientWidth clientHeight setCss ''width''
           = Some (Px (Fin (of_int \<lfloor>fl (D * fl (A / B)) + 1/2\<rfloor>))) \<and>
         doWork style videoWidth videoHeight clientWidth clientHeight setCss ''height''
           = Some (Px (Fin D))"
    and "\<not> height_constrained style (Fin (fl (A / B))) (Fin (fl (C / D))) \<Longrightarrow>
         doWork style videoWidth videoHeight clientWidth clientHeight setCss ''width''
           = Some (Px (Fin C)) \<and>
         doWork style videoWidth videoHeight clientWidth clientHeight setCss ''height''
           = Some (Px (Fin (of_int \<lfloor>fl (C / fl (A / B)) + 1/2\<rfloor>)))"
proof -
  have pos: "0 < A" "0 < B" "0 < C" "0 < D"
    using assms(1-4) unfolding A_def B_def C_def D_def
    by (simp_all only: of_nat_0_less_iff of_int_0_less_iff)
  show vr: "videoRatio videoWidth videoHeight = Fin (fl (A / B))"
    using pos unfolding videoRatio_def of_ulong_def A_def B_def by simp
  show wr: "wrapRatio clientWidth clientHeight = Fin (fl (C / D))"
    using pos unfolding wrapRatio_def of_long_def C_def D_def by simp
  show vp: "0 < fl (A / B)" using pos by (intro fl_pos) simp
  show "0 < fl (C / D)" using pos by (intro fl_pos) simp
  have ne: "fl (A / B) \<noteq> 0" using vp by simp
  show "height_constrained style (Fin (fl (A / B))) (Fin (fl (C / D))) \<Longrightarrow>
         doWork style videoWidth videoHeight clientWidth clientHeight setCss ''width''
           = Some (Px (Fin (of_int \<lfloor>fl (D * fl (A / B)) + 1/2\<rfloor>))) \<and>
         doWork style videoWidth videoHeight clientWidth clientHeight setCss ''height''
           = Some (Px (Fin D))"
    unfolding doWork_def vr wr Let_def of_long_def C_def[symmetric] D_def[symmetric]
    by simp
  show "\<not> height_constrained style (Fin (fl (A / B))) (Fin (fl (C / D))) \<Longrightarrow>
         doWork style videoWidth videoHeight clientWidth clientHeight setCss ''width''
           = Some (Px (Fin C)) \<and>
         doWork style videoWidth videoHeight clientWidth clientHeight setCss ''height''
           = Some (Px (Fin (of_int \<lfloor>fl (C / fl (A / B)) + 1/2\<rfloor>)))"
    unfolding doWork_def vr wr Let_def of_long_def C_def[symmetric] D_def[symmetric]
    using ne by simp
qed


lemma round_le: "x < of_int c + 1/2 \<Longrightarrow> \<lfloor>x + 1/2\<rfloor> \<le> c" for x :: rat
proof -
  assume "x < of_int c + 1/2"
  then have "x + 1/2 < of_int (c + 1)" by simp
  then have "\<lfloor>x + 1/2\<rfloor> < c + 1" by (simp only: floor_less_iff)
  then show ?thesis by simp
qed

lemma round_ge: "of_int c - 1/2 \<le> x \<Longrightarrow> c \<le> \<lfloor>x + 1/2\<rfloor>" for x :: rat
proof -
  assume "of_int c - 1/2 \<le> x"
  then have "of_int c \<le> x + 1/2" by simp
  then show ?thesis by (simp only: le_floor_iff)
qed

text \<open>
  Claim C1. For positive intrinsic video dimensions and positive wrapper client
  dimensions, \<open>contain\<close> gives a width and a height that are both at most the
  wrapper's, one of them equal to the wrapper's; \<open>cover\<close> gives a width and a height
  that are both at least the wrapper's, and not both larger.
\<close>

theorem doWork_contain_fits_cover_covers:
  fixes videoWidth videoHeight clientWidth clientHeight :: "32 word"
  assumes "0 < unat videoWidth" "0 < unat videoHeight"
    and "0 < sint clientWidth" "0 < sint clientHeight"
  shows "(style ''object-fit'' = Some ''contain'' \<longrightarrow>
           (\<exists>w h. doWork style videoWidth videoHeight clientWidth clientHeight setCss ''width''
                    = Some (Px (Fin (of_int w))) \<and>
                  doWork style videoWidth videoHeight clientWidth clientHeight setCss ''height''
                    = Some (Px (Fin (of_int h))) \<and>
                  w \<le> sint clientWidth \<and> h \<le> sint clientHeight \<and>
                  (w = sint clientWidth \<or> h = sint clientHeight))) \<and>
         (style ''object-fit'' = Some ''cover'' \<longrightarrow>
           (\<exists>w h. doWork style videoWidth videoHeight clientWidth clientHeight setCss ''width''
                    = Some (Px (Fin (of_int w))) \<and>
                  doWork style videoWidth videoHeight clientWidth clientHeight setCss ''height''
                    = Some (Px (Fin (of_int h))) \<and>
                  sint clientWidth \<le> w \<and> sint clientHeight \<le> h \<and>
                  \<not> (sint clientWidth < w \<and> sint clientHeight < h)))"
proof -
  define A :: rat where "A = of_nat (unat videoWidth)"
  define B :: rat where "B = of_nat (unat videoHeight)"
  define C :: rat where "C = of_int (sint clientWidth)"
  define D :: rat where "D = of_int (sint clientHeight)"
  have pos: "0 < A" "0 < B" "0 < C" "0 < D"
    using assms unfolding A_def B_def C_def D_def
    by (simp_all only: of_nat_0_less_iff of_int_0_less_iff)
  have bnd: "C \<le> 2 ^ 32" "D \<le> 2 ^ 32" unfolding C_def D_def by (rule long_bound)+
  let ?hc = "height_constrained style (Fin (fl (A / B))) (Fin (fl (C / D)))"
  let ?W = "doWork style videoWidth videoHeight clientWidth clientHeight setCss ''width''"
  let ?H = "doWork style videoWidth videoHeight clientWidth clientHeight setCss ''height''"
  note sz = doWork_sizes(5,6)[OF assms, of style setCss, folded A_def B_def C_def D_def]
  have contain: ?thesis if fit: "style ''object-fit'' = Some ''contain''"
  proof (cases ?hc)
    case True
    then have lt: "fl (A / B) < fl (C / D)"
      using fit unfolding height_constrained_def by (simp split: if_splits)
    have "\<lfloor>fl (D * fl (A / B)) + 1/2\<rfloor> \<le> sint clientWidth"
      using contain_height_fits[OF pos bnd(1) lt] unfolding C_def by (rule round_le)
    then show ?thesis using sz(1)[OF True] fit unfolding D_def by (auto simp del: of_int_sint)
  next
    case False
    then have ge: "\<not> fl (A / B) < fl (C / D)"
      using fit unfolding height_constrained_def by (simp split: if_splits)
    have "\<lfloor>fl (C / fl (A / B)) + 1/2\<rfloor> \<le> sint clientHeight"
      using contain_width_fits[OF pos bnd(2) ge] unfolding D_def by (rule round_le)
    then show ?thesis using sz(2)[OF False] fit unfolding C_def by (auto simp del: of_int_sint)
  qed
  have cover: ?thesis if fit: "style ''object-fit'' = Some ''cover''"
  proof (cases ?hc)
    case True
    then have ge: "\<not> fl (A / B) < fl (C / D)"
      using fit unfolding height_constrained_def by (simp split: if_splits)
    have "sint clientWidth \<le> \<lfloor>fl (D * fl (A / B)) + 1/2\<rfloor>"
      using cover_height_covers[OF pos bnd(1) ge] unfolding C_def by (rule round_ge)
    then show ?thesis using sz(1)[OF True] fit unfolding D_def by (auto simp del: of_int_sint)
  next
    case False
    then have lt: "fl (A / B) < fl (C / D)"
      using fit unfolding height_constrained_def by (simp split: if_splits)
    have "sint clientHeight \<le> \<lfloor>fl (C / fl (A / B)) + 1/2\<rfloor>"
      using cover_width_covers[OF pos bnd(2) lt] unfolding D_def by (rule round_ge)
    then show ?thesis using sz(2)[OF False] fit unfolding C_def by (auto simp del: of_int_sint)
  qed
  show ?thesis using contain cover by (cases "style ''object-fit'' = Some ''contain''") auto
qed

theorem doWork_contain_fits_cover_covers_witness:
  "0 < unat (1920 :: 32 word) \<and> 0 < unat (1080 :: 32 word) \<and>
   0 < sint (400 :: 32 word) \<and> 0 < sint (300 :: 32 word) \<and>
   (\<exists>w h. doWork [''object-fit'' \<mapsto> ''contain''] 1920 1080 400 300 Map.empty ''width''
             = Some (Px (Fin (of_int w))) \<and>
          doWork [''object-fit'' \<mapsto> ''contain''] 1920 1080 400 300 Map.empty ''height''
             = Some (Px (Fin (of_int h))) \<and>
          w \<le> 400 \<and> h \<le> 300 \<and> (w = 400 \<or> h = 300)) \<and>
   (\<exists>w h. doWork [''object-fit'' \<mapsto> ''cover''] 1920 1080 400 300 Map.empty ''width''
             = Some (Px (Fin (of_int w))) \<and>
          doWork [''object-fit'' \<mapsto> ''cover''] 1920 1080 400 300 Map.empty ''height''
             = Some (Px (Fin (of_int h))) \<and>
          400 \<le> w \<and> 300 \<le> h \<and> \<not> (400 < w \<and> 300 < h))"
  using doWork_contain_fits_cover_covers
          [of 1920 1080 400 300 "[''object-fit'' \<mapsto> ''contain'']" Map.empty]
        doWork_contain_fits_cover_covers
          [of 1920 1080 400 300 "[''object-fit'' \<mapsto> ''cover'']" Map.empty]
  by simp

text \<open>
  Claim C2. For positive ratios and a fit of \<open>contain\<close> or \<open>cover\<close>, the routine takes the
  height-constrained branch (height = the wrapper's client height, width derived from
  the video ratio) exactly when the video ratio is below the wrapper ratio and the fit is
  \<open>contain\<close>, or the video ratio is at least the wrapper ratio and the fit is \<open>cover\<close>;
  otherwise it takes the width-constrained branch (width = the wrapper's client width,
  height derived from the video ratio).
\<close>

theorem doWork_branch_selection:
  fixes videoWidth videoHeight clientWidth clientHeight :: "32 word"
  assumes "0 < unat videoWidth" "0 < unat videoHeight"
    and "0 < sint clientWidth" "0 < sint clientHeight"
    and fit: "style ''object-fit'' = Some fit" "fit = ''contain'' \<or> fit = ''cover''"
  shows "(\<forall>vr wr. 0 < vr \<longrightarrow> 0 < wr \<longrightarrow>
            (height_constrained style (Fin vr) (Fin wr) \<longleftrightarrow>
               (vr < wr \<and> fit = ''contain'') \<or> (wr \<le> vr \<and> fit = ''cover''))) \<and>
         (\<exists>vr wr. videoRatio videoWidth videoHeight = Fin vr \<and> 0 < vr \<and>
            wrapRatio clientWidth clientHeight = Fin wr \<and> 0 < wr \<and>
            (if (vr < wr \<and> fit = ''contain'') \<or> (wr \<le> vr \<and> fit = ''cover'')
             then doWork style videoWidth videoHeight clientWidth clientHeight setCss ''height''
                    = Some (Px (of_long clientHeight)) \<and>
                  doWork style videoWidth videoHeight clientWidth clientHeight setCss ''width''
                    = Some (Px (Math_round (num_mul (of_long clientHeight) (Fin vr))))
             else doWork style videoWidth videoHeight clientWidth clientHeight setCss ''width''
                    = Some (Px (of_long clientWidth)) \<and>
                  doWork style videoWidth videoHeight clientWidth clientHeight setCss ''height''
                    = Some (Px (Math_round (num_div (of_long clientWidth) (Fin vr))))))"
proof -
  have cond: "height_constrained style (Fin vr) (Fin wr) \<longleftrightarrow>
      (vr < wr \<and> fit = ''contain'') \<or> (wr \<le> vr \<and> fit = ''cover'')" for vr wr
    using fit unfolding height_constrained_def by auto
  define A :: rat where "A = of_nat (unat videoWidth)"
  define B :: rat where "B = of_nat (unat videoHeight)"
  define C :: rat where "C = of_int (sint clientWidth)"
  define D :: rat where "D = of_int (sint clientHeight)"
  note rt = doWork_sizes(1-4)[OF assms(1-4), folded A_def B_def C_def D_def]
  note sz = doWork_sizes(5,6)[OF assms(1-4), of style setCss, folded A_def B_def C_def D_def]
  have ne: "fl (A / B) \<noteq> 0" using rt(3) by simp
  have "if (fl (A / B) < fl (C / D) \<and> fit = ''contain'') \<or> (fl (C / D) \<le> fl (A / B) \<and> fit = ''cover'')
     then doWork style videoWidth videoHeight clientWidth clientHeight setCss ''height''
            = Some (Px (of_long clientHeight)) \<and>
          doWork style videoWidth videoHeight clientWidth clientHeight setCss ''width''
            = Some (Px (Math_round (num_mul (of_long clientHeight) (Fin (fl (A / B))))))
     else doWork style videoWidth videoHeight clientWidth clientHeight setCss ''width''
            = Some (Px (of_long clientWidth)) \<and>
          doWork style videoWidth videoHeight clientWidth clientHeight setCss ''height''
            = Some (Px (Math_round (num_div (of_long clientWidth) (Fin (fl (A / B))))))"
    using sz ne unfolding cond of_long_def C_def[symmetric] D_def[symmetric]
    by (simp del: of_int_sint)
  then show ?thesis using rt cond by blast
qed

theorem doWork_branch_selection_witness:
  "0 < unat (1920 :: 32 word) \<and> 0 < unat (1080 :: 32 word) \<and>
   0 < sint (400 :: 32 word) \<and> 0 < sint (300 :: 32 word) \<and>
   (height_constrained [''object-fit'' \<mapsto> ''cover''] (Fin (16 / 9)) (Fin (4 / 3)) \<longleftrightarrow>
      ((16 / 9 :: rat) < 4 / 3 \<and> ''cover'' = ''contain'') \<or> ((4 / 3 :: rat) \<le> 16 / 9 \<and> ''cover'' = ''cover'')) \<and>
   (\<exists>vr wr. videoRatio 1920 1080 = Fin vr \<and> 0 < vr \<and> wrapRatio 400 300 = Fin wr \<and> 0 < wr \<and>
      (if (vr < wr \<and> ''cover'' = ''contain'') \<or> (wr \<le> vr \<and> ''cover'' = ''cover'')
       then doWork [''object-fit'' \<mapsto> ''cover''] 1920 1080 400 300 Map.empty ''height''
              = Some (Px (of_long 300)) \<and>
            doWork [''object-fit'' \<mapsto> ''cover''] 1920 1080 400 300 Map.empty ''width''
              = Some (Px (Math_round (num_mul (of_long 300) (Fin vr))))
       else doWork [''object-fit'' \<mapsto> ''cover''] 1920 1080 400 300 Map.empty ''width''
              = Some (Px (of_long 400)) \<and>
            doWork [''object-fit'' \<mapsto> ''cover''] 1920 1080 400 300 Map.empty ''height''
              = Some (Px (Math_round (num_div (of_long 400) (Fin vr))))))"
proof -
  have h: "0 < unat (1920 :: 32 word)" "0 < unat (1080 :: 32 word)"
    "0 < sint (400 :: 32 word)" "0 < sint (300 :: 32 word)"
    "[''object-fit'' \<mapsto> ''cover''] ''object-fit'' = Some ''cover''"
    "''cover'' = ''contain'' \<or> ''cover'' = ''cover''"
    by simp_all
  from doWork_branch_selection[where videoWidth = 1920 and videoHeight = 1080
      and clientWidth = 400 and clientHeight = 300 and fit = "''cover''"
      and style = "[''object-fit'' \<mapsto> ''cover'']" and setCss = Map.empty, OF h]
  show ?thesis using h(1-4) by (simp del: of_int_sint)
qed

lemma scenario_words:
  "of_ulong 1920 = Fin 1920" "of_ulong 1080 = Fin 1080"
  "of_long 400 = Fin 400" "of_long 300 = Fin 300"
  by (simp_all add: of_ulong_def of_long_def)

lemma scenario_ratios:
  "num_div (Fin 1920) (Fin 1080) = Fin (2001599834386887 / 1125899906842624)"
  "num_div (Fin 400) (Fin 300) = Fin (6004799503160661 / 4503599627370496)"
  "num_less (Fin (2001599834386887 / 1125899906842624))
            (Fin (6004799503160661 / 4503599627370496)) = False"
  by code_simp+

lemma scenario_width:
  "Math_round (num_mul (Fin 300) (Fin (2001599834386887 / 1125899906842624))) = Fin 533"
  by code_simp

lemma scenario_margin:
  "Math_round (num_div (num_sub (Fin 400)
       (num_mul (Fin 300) (Fin (2001599834386887 / 1125899906842624)))) (Fin 2)) = Fin (- 67)"
  by code_simp

text \<open>
  Claim C3. A 1920 x 1080 video in a 400 x 300 wrapper with \<open>cover\<close> and no declared
  position: the height-constrained branch is taken, the height is 300px, the width is
  533px, \<open>marginTop\<close> is 0 and \<open>marginLeft\<close> is -67px.
\<close>

theorem doWork_scenario_1920x1080_in_400x300_cover:
  "height_constrained [''object-fit'' \<mapsto> ''cover''] (videoRatio 1920 1080) (wrapRatio 400 300) \<and>
   doWork [''object-fit'' \<mapsto> ''cover''] 1920 1080 400 300 setCss ''height'' = Some (Px (Fin 300)) \<and>
   doWork [''object-fit'' \<mapsto> ''cover''] 1920 1080 400 300 setCss ''width'' = Some (Px (Fin 533)) \<and>
   doWork [''object-fit'' \<mapsto> ''cover''] 1920 1080 400 300 setCss ''marginTop'' = Some (Num 0) \<and>
   doWork [''object-fit'' \<mapsto> ''cover''] 1920 1080 400 300 setCss ''marginLeft'' = Some (Px (Fin (- 67)))"
  unfolding doWork_def Let_def videoRatio_def wrapRatio_def height_constrained_def
    scenario_words scenario_ratios scenario_width scenario_margin
  by simp

section \<open>Properties of the style extractor\<close>

lemma indexOf_from_sublist:
  "0 \<le> i \<Longrightarrow> (indexOf_from i s pat = - 1 \<longleftrightarrow> \<not> sublist pat s) \<and>
      (indexOf_from i s pat = - 1 \<or> i \<le> indexOf_from i s pat)"
proof (induction s arbitrary: i)
  case Nil
  then show ?case by auto
next
  case (Cons c cs)
  have "0 \<le> i + 1" using Cons.prems by simp
  from Cons.IH[OF this] Cons.prems show ?case
    by (auto simp: sublist_Cons_right)
qed

lemma tilde_indexOf: "tilde (indexOf s pat) \<longleftrightarrow> sublist pat s"
proof -
  have "not (indexOf s pat) = 0 \<longleftrightarrow> indexOf s pat = - 1"
    by (simp add: not_int_def) 
  then show ?thesis
    using indexOf_from_sublist[of 0 s pat] unfolding tilde_def indexOf_def by auto
qed

lemma parsePosition_spec:
  "style ''object-position'' = Some s \<Longrightarrow>
   parsePosition style = Inr (style(''object-position-x'' \<mapsto> spec_positionX s,
                                   ''object-position-y'' \<mapsto> spec_positionY s))"
  unfolding parsePosition_def spec_positionX_def spec_positionY_def
  by (simp add: tilde_indexOf Let_def)


lemma match_name_key: "match_name name s = Some (k, v, r) \<Longrightarrow> k = name"
  unfolding match_name_def by (auto split: option.splits)

lemma exec_key: "exec s = Some (k, v, r) \<Longrightarrow> k = ''object-fit'' \<or> k = ''object-position''"
proof (induction s)
  case Nil
  then show ?case by simp
next
  case (Cons c cs)
  then show ?case unfolding exec.simps match_here_def
    by (auto split: option.splits dest: match_name_key)
qed

lemma getProps_other_keys:
  "key \<noteq> ''object-fit'' \<Longrightarrow> key \<noteq> ''object-position'' \<Longrightarrow> getProps props s key = props key"
proof (induction props s rule: getProps.induct)
  case (1 props s)
  show ?case
  proof (cases "exec s")
    case None
    then show ?thesis by (subst getProps.simps) simp
  next
    case (Some m)
    obtain k v r where m: "m = (k, v, r)" by (cases m)
    have k: "k = ''object-fit'' \<or> k = ''object-position''"
      using Some exec_key unfolding m by blast
    have "getProps props s key = getProps (props(k \<mapsto> v)) r key"
      using Some unfolding m by (subst getProps.simps) simp
    also have "\<dots> = (props(k \<mapsto> v)) key"
      by (rule "1.IH"[OF Some[unfolded m] refl refl "1.prems"])
    also have "\<dots> = props key" using k "1.prems" by auto
    finally show ?thesis .
  qed
qed

lemma getStyle_without_position:
  assumes "getProps Map.empty (el_fontFamily env el) ''object-position'' = None"
  shows "getStyle env el = Inr (getProps Map.empty (el_fontFamily env el))"
  using assms unfolding getStyle_def Let_def truthy_def by simp

lemma getStyle_with_position:
  assumes "getProps Map.empty (el_fontFamily env el) ''object-position'' = Some s" "s \<noteq> []"
  shows "getStyle env el = Inr ((getProps Map.empty (el_fontFamily env el))
           (''object-position-x'' \<mapsto> spec_positionX s, ''object-position-y'' \<mapsto> spec_positionY s))"
  using assms parsePosition_spec[of "getProps Map.empty (el_fontFamily env el)" s]
  unfolding getStyle_def Let_def truthy_def by simp

lemma doWork_center_default:
  assumes "style ''object-position-x'' = None" "style ''object-position-y'' = None"
  shows "doWork (style(''object-position-x'' \<mapsto> ''center'', ''object-position-y'' \<mapsto> ''center''))
           vw vh cw ch setCss = doWork style vw vh cw ch setCss"
  using assms unfolding doWork_def height_constrained_def Let_def by simp

lemma spec_position_examples:
  "spec_positionX ''right bottom'' = ''right''" "spec_positionY ''right bottom'' = ''bottom''"
  "spec_positionX ''top'' = ''center''" "spec_positionY ''top'' = ''top''"
  by code_simp+

lemma example_props:
  "getProps Map.empty ''object-fit: cover'' ''object-position'' = None"
  "getProps Map.empty ''object-fit: cover'' ''object-fit'' = Some ''cover''"
  "getProps Map.empty ''object-position: left'' ''object-position'' = Some ''left''"
  "getProps Map.empty ''object-position: left'' ''object-fit'' = None"
  "getProps Map.empty ''object-fit: fill'' ''object-fit'' = Some ''fill''"
  "getProps Map.empty ''object-fit: fill'' ''object-position'' = None"
  by code_simp+

text \<open>
  Claim C7. For every raw \<open>object-position\<close> string, \<open>parsePosition\<close> classifies each
  axis by case-sensitive substring containment: \<open>left\<close>, else \<open>right\<close>, else \<open>center\<close>;
  \<open>top\<close>, else \<open>bottom\<close>, else \<open>center\<close>. \<open>right bottom\<close> gives right and bottom, \<open>top\<close>
  gives center and top, and when no \<open>object-position\<close> is declared the two keys are
  absent and the sizing behaves as for center and center.
\<close>

theorem parsePosition_classifies_by_containment:
  "(\<forall>style s. style ''object-position'' = Some s \<longrightarrow>
      parsePosition style = Inr (style(''object-position-x'' \<mapsto> spec_positionX s,
                                      ''object-position-y'' \<mapsto> spec_positionY s))) \<and>
   parsePosition [''object-position'' \<mapsto> ''right bottom''] =
     Inr [''object-position'' \<mapsto> ''right bottom'', ''object-position-x'' \<mapsto> ''right'',
          ''object-position-y'' \<mapsto> ''bottom''] \<and>
   parsePosition [''object-position'' \<mapsto> ''top''] =
     Inr [''object-position'' \<mapsto> ''top'', ''object-position-x'' \<mapsto> ''center'',
          ''object-position-y'' \<mapsto> ''top''] \<and>
   (getProps Map.empty (el_fontFamily env el) ''object-position'' = None \<longrightarrow>
      (\<exists>st. getStyle env el = Inr st \<and>
            st ''object-position-x'' = None \<and> st ''object-position-y'' = None \<and>
            (\<forall>vw vh cw ch setCss.
               doWork st vw vh cw ch setCss =
               doWork (st(''object-position-x'' \<mapsto> ''center'', ''object-position-y'' \<mapsto> ''center''))
                 vw vh cw ch setCss)))"
proof (intro conjI allI impI)
  fix style :: style and s
  assume "style ''object-position'' = Some s"
  then show "parsePosition style = Inr (style(''object-position-x'' \<mapsto> spec_positionX s,
                                      ''object-position-y'' \<mapsto> spec_positionY s))"
    by (rule parsePosition_spec)
next
  show "parsePosition [''object-position'' \<mapsto> ''right bottom''] =
     Inr [''object-position'' \<mapsto> ''right bottom'', ''object-position-x'' \<mapsto> ''right'',
          ''object-position-y'' \<mapsto> ''bottom'']"
    by (subst parsePosition_spec[of _ "''right bottom''"]) (simp_all add: spec_position_examples)
next
  show "parsePosition [''object-position'' \<mapsto> ''top''] =
     Inr [''object-position'' \<mapsto> ''top'', ''object-position-x'' \<mapsto> ''center'',
          ''object-position-y'' \<mapsto> ''top'']"
    by (subst parsePosition_spec[of _ "''top''"]) (simp_all add: spec_position_examples)
next
  assume a: "getProps Map.empty (el_fontFamily env el) ''object-position'' = None"
  let ?st = "getProps Map.empty (el_fontFamily env el)"
  have x: "?st ''object-position-x'' = None" by (subst getProps_other_keys) simp_all
  have y: "?st ''object-position-y'' = None" by (subst getProps_other_keys) simp_all
  show "\<exists>st. getStyle env el = Inr st \<and>
            st ''object-position-x'' = None \<and> st ''object-position-y'' = None \<and>
            (\<forall>vw vh cw ch setCss.
               doWork st vw vh cw ch setCss =
               doWork (st(''object-position-x'' \<mapsto> ''center'', ''object-position-y'' \<mapsto> ''center''))
                 vw vh cw ch setCss)"
    using getStyle_without_position[OF a] x y doWork_center_default[OF x y] by simp
qed

theorem parsePosition_classifies_by_containment_witness:
  "[''object-position'' \<mapsto> ''left top''] ''object-position'' = Some ''left top'' \<and>
   parsePosition [''object-position'' \<mapsto> ''left top''] =
     Inr [''object-position'' \<mapsto> ''left top'',
          ''object-position-x'' \<mapsto> spec_positionX ''left top'',
          ''object-position-y'' \<mapsto> spec_positionY ''left top''] \<and>
   getProps Map.empty (el_fontFamily (example_env ''object-fit: cover'') 1) ''object-position'' = None \<and>
   (\<exists>st. getStyle (example_env ''object-fit: cover'') 1 = Inr st \<and>
         st ''object-position-x'' = None \<and> st ''object-position-y'' = None \<and>
         doWork st 1920 1080 400 300 Map.empty =
         doWork (st(''object-position-x'' \<mapsto> ''center'', ''object-position-y'' \<mapsto> ''center''))
           1920 1080 400 300 Map.empty)"
proof -
  note t = parsePosition_classifies_by_containment[of "example_env ''object-fit: cover''" 1]
  have h: "getProps Map.empty (el_fontFamily (example_env ''object-fit: cover'') 1)
             ''object-position'' = None"
    by (simp add: example_env_def example_props)
  have s: "[''object-position'' \<mapsto> ''left top''] ''object-position'' = Some ''left top''"
    by simp
  have a: "parsePosition [''object-position'' \<mapsto> ''left top''] =
     Inr [''object-position'' \<mapsto> ''left top'',
          ''object-position-x'' \<mapsto> spec_positionX ''left top'',
          ''object-position-y'' \<mapsto> spec_positionY ''left top'']"
    by (rule t[THEN conjunct1, rule_format,
          of "[''object-position'' \<mapsto> ''left top'']" "''left top''", OF s])
  have b: "\<exists>st. getStyle (example_env ''object-fit: cover'') 1 = Inr st \<and>
         st ''object-position-x'' = None \<and> st ''object-position-y'' = None \<and>
         doWork st 1920 1080 400 300 Map.empty =
         doWork (st(''object-position-x'' \<mapsto> ''center'', ''object-position-y'' \<mapsto> ''center''))
           1920 1080 400 300 Map.empty"
    using t[THEN conjunct2, THEN conjunct2, THEN conjunct2, THEN mp, OF h] by blast
  show ?thesis using s a h b by (intro conjI)
qed

text \<open>
  Claim C10. A string containing both \<open>left\<close> and \<open>right\<close> gives \<open>left\<close>; one containing
  both \<open>top\<close> and \<open>bottom\<close> gives \<open>top\<close>; and whenever an \<open>object-position\<close> value is
  present, both keys are assigned.
\<close>

theorem parsePosition_first_keyword_wins:
  "(style ''object-position'' = Some s \<longrightarrow> sublist ''left'' s \<longrightarrow> sublist ''right'' s \<longrightarrow>
      (\<exists>st. parsePosition style = Inr st \<and> st ''object-position-x'' = Some ''left'')) \<and>
   (style ''object-position'' = Some s \<longrightarrow> sublist ''top'' s \<longrightarrow> sublist ''bottom'' s \<longrightarrow>
      (\<exists>st. parsePosition style = Inr st \<and> st ''object-position-y'' = Some ''top'')) \<and>
   (style ''object-position'' = Some s \<longrightarrow>
      (\<exists>st. parsePosition style = Inr st \<and>
            st ''object-position-x'' \<noteq> None \<and> st ''object-position-y'' \<noteq> None)) \<and>
   (truthy (getProps Map.empty (el_fontFamily env el) ''object-position'') \<longrightarrow>
      (\<exists>st. getStyle env el = Inr st \<and>
            st ''object-position-x'' \<noteq> None \<and> st ''object-position-y'' \<noteq> None))"
proof (intro conjI impI)
  assume "style ''object-position'' = Some s" "sublist ''left'' s" "sublist ''right'' s"
  then show "\<exists>st. parsePosition style = Inr st \<and> st ''object-position-x'' = Some ''left''"
    using parsePosition_spec[of style s] by (simp add: spec_positionX_def)
next
  assume "style ''object-position'' = Some s" "sublist ''top'' s" "sublist ''bottom'' s"
  then show "\<exists>st. parsePosition style = Inr st \<and> st ''object-position-y'' = Some ''top''"
    using parsePosition_spec[of style s] by (simp add: spec_positionY_def)
next
  assume "style ''object-position'' = Some s"
  then show "\<exists>st. parsePosition style = Inr st \<and>
            st ''object-position-x'' \<noteq> None \<and> st ''object-position-y'' \<noteq> None"
    using parsePosition_spec[of style s] by simp
next
  assume "truthy (getProps Map.empty (el_fontFamily env el) ''object-position'')"
  then obtain v where v: "getProps Map.empty (el_fontFamily env el) ''object-position'' = Some v"
    "v \<noteq> []" unfolding truthy_def by (auto split: option.splits)
  show "\<exists>st. getStyle env el = Inr st \<and>
            st ''object-position-x'' \<noteq> None \<and> st ''object-position-y'' \<noteq> None"
    using getStyle_with_position[OF v] by simp
qed

lemma example_both: "sublist ''left'' ''right left bottom top''" "sublist ''right'' ''right left bottom top''"
  "sublist ''top'' ''right left bottom top''" "sublist ''bottom'' ''right left bottom top''"
  by code_simp+

theorem parsePosition_first_keyword_wins_witness:
  "[''object-position'' \<mapsto> ''right left bottom top''] ''object-position''
      = Some ''right left bottom top'' \<and>
   sublist ''left'' ''right left bottom top'' \<and> sublist ''right'' ''right left bottom top'' \<and>
   sublist ''top'' ''right left bottom top'' \<and> sublist ''bottom'' ''right left bottom top'' \<and>
   truthy (getProps Map.empty (el_fontFamily (example_env ''object-position: left'') 1)
             ''object-position'') \<and>
   (\<exists>st. parsePosition [''object-position'' \<mapsto> ''right left bottom top''] = Inr st \<and>
         st ''object-position-x'' = Some ''left'' \<and> st ''object-position-y'' = Some ''top'') \<and>
   (\<exists>st. getStyle (example_env ''object-position: left'') 1 = Inr st \<and>
         st ''object-position-x'' \<noteq> None \<and> st ''object-position-y'' \<noteq> None)"
proof -
  let ?style = "[''object-position'' \<mapsto> ''right left bottom top'']"
  note t = parsePosition_first_keyword_wins
         [of ?style "''right left bottom top''" "example_env ''object-position: left''" 1]
  have h: "truthy (getProps Map.empty (el_fontFamily (example_env ''object-position: left'') 1)
             ''object-position'')"
    by (simp add: example_env_def example_props truthy_def)
  have s: "?style ''object-position'' = Some ''right left bottom top''" by simp
  obtain st1 where x: "parsePosition ?style = Inr st1" "st1 ''object-position-x'' = Some ''left''"
    using t[THEN conjunct1, THEN mp, THEN mp, THEN mp, OF s example_both(1,2)] by blast
  obtain st2 where y: "parsePosition ?style = Inr st2" "st2 ''object-position-y'' = Some ''top''"
    using t[THEN conjunct2, THEN conjunct1, THEN mp, THEN mp, THEN mp, OF s example_both(3,4)]
    by blast
  have xy: "\<exists>st. parsePosition ?style = Inr st \<and>
         st ''object-position-x'' = Some ''left'' \<and> st ''object-position-y'' = Some ''top''"
    using x y by auto
  have g: "\<exists>st. getStyle (example_env ''object-position: left'') 1 = Inr st \<and>
         st ''object-position-x'' \<noteq> None \<and> st ''object-position-y'' \<noteq> None"
    by (rule t[THEN conjunct2, THEN conjunct2, THEN conjunct2, THEN mp, OF h])
  show ?thesis using s example_both h xy g by (intro conjI)
qed

section \<open>Properties of the throttler\<close>

lemma func_running: "running t \<Longrightarrow> (func ^^ n) t = t"
  by (induction n) (simp_all add: func_def)

lemma func_burst:
  assumes "\<not> running t" "1 \<le> n"
  shows "(func ^^ n) t = t\<lparr>running := True, scheduled := Suc (scheduled t)\<rparr>"
proof -
  obtain k where n: "n = Suc k" using assms(2) by (cases n) auto
  have "(func ^^ n) t = (func ^^ k) (func t)" unfolding n by (simp add: funpow_swap1)
  also have "func t = t\<lparr>running := True, scheduled := Suc (scheduled t)\<rparr>"
    using assms(1) by (simp add: func_def)
  also have "(func ^^ k) (t\<lparr>running := True, scheduled := Suc (scheduled t)\<rparr>)
      = t\<lparr>running := True, scheduled := Suc (scheduled t)\<rparr>"
    by (rule func_running) simp
  finally show ?thesis .
qed

lemma throttle_creates:
  "throttlers (throttle type name obj p) = throttlers p @
     [\<lparr>t_obj = (case obj of None \<Rightarrow> Window | Some t \<Rightarrow> t), t_evt = name,
       running = False, scheduled = 0, dispatched = []\<rparr>]"
  unfolding throttle_def addEventListener_def Let_def by simp

lemma call_Func_burst:
  "t < length (throttlers p) \<Longrightarrow>
   throttlers ((call_listener env (Func t) ^^ n) p)
     = (throttlers p)[t := (func ^^ n) (throttlers p ! t)] \<and>
   listeners ((call_listener env (Func t) ^^ n) p) = listeners p"
proof (induction n)
  case 0
  then show ?case by simp
next
  case (Suc n)
  let ?q = "(call_listener env (Func t) ^^ n) p"
  have q: "throttlers ?q = (throttlers p)[t := (func ^^ n) (throttlers p ! t)]"
    "listeners ?q = listeners p"
    using Suc by simp_all
  have len: "t < length (throttlers ?q)" unfolding q using Suc.prems by simp
  have step: "(call_listener env (Func t) ^^ Suc n) p
          = ?q\<lparr>throttlers := (throttlers ?q)[t := func (throttlers ?q ! t)]\<rparr>"
    using len by (simp add: call_listener_def)
  have a: "throttlers ((call_listener env (Func t) ^^ Suc n) p)
      = (throttlers p)[t := (func ^^ Suc n) (throttlers p ! t)]"
    unfolding step using Suc.prems by (simp add: q)
  have b: "listeners ((call_listener env (Func t) ^^ Suc n) p) = listeners p"
    unfolding step by (simp add: q)
  show ?case using a b by (rule conjI)
qed

lemma throttle_registers:
  "set (listeners (throttle type name obj p)) =
     insert (case obj of None \<Rightarrow> Window | Some t \<Rightarrow> t, type, Func (length (throttlers p)))
       (set (listeners p))"
  unfolding throttle_def addEventListener_def Let_def by auto

text \<open>
  Claim C8. A burst of \<open>n \<ge> 1\<close> source events delivered before the next animation
  frame makes the throttler dispatch the synthetic event exactly once: the first event
  sets the flag and schedules one callback, the others are dropped, and the flag is
  cleared after the dispatch. (When a dispatch is already pending, the whole burst is
  dropped and the frame still dispatches once.) So it is for 100 events on the throttler
  that \<open>throttle\<close> creates. \<open>throttle\<close> registers \<open>func\<close> of that throttler as a
  listener for the source event on the target, and calling this listener \<open>n \<ge> 1\<close>
  times before the frame gives one dispatch of the synthetic event on the target.
\<close>

theorem throttle_burst_dispatches_once:
  "(\<not> running t \<and> scheduled t = 0 \<and> 1 \<le> n \<longrightarrow>
      running ((func ^^ n) t) \<and> scheduled ((func ^^ n) t) = 1 \<and>
      dispatched ((func ^^ n) t) = dispatched t \<and>
      dispatched (animation_frame ((func ^^ n) t)) = dispatched t @ [(t_obj t, t_evt t)] \<and>
      \<not> running (animation_frame ((func ^^ n) t)) \<and>
      scheduled (animation_frame ((func ^^ n) t)) = 0) \<and>
   (running t \<and> scheduled t = 1 \<longrightarrow>
      (func ^^ n) t = t \<and>
      dispatched (animation_frame ((func ^^ n) t)) = dispatched t @ [(t_obj t, t_evt t)] \<and>
      \<not> running (animation_frame ((func ^^ n) t)) \<and>
      scheduled (animation_frame ((func ^^ n) t)) = 0) \<and>
   dispatched (animation_frame ((func ^^ 100) (last (throttlers (throttle type name obj p)))))
     = [(case obj of None \<Rightarrow> Window | Some t \<Rightarrow> t, name)] \<and>
   (case obj of None \<Rightarrow> Window | Some t \<Rightarrow> t, type, Func (length (throttlers p)))
     \<in> set (listeners (throttle type name obj p)) \<and>
   set (listeners (throttle type name obj p)) =
     insert (case obj of None \<Rightarrow> Window | Some t \<Rightarrow> t, type, Func (length (throttlers p)))
       (set (listeners p)) \<and>
   length (throttlers (throttle type name obj p)) = Suc (length (throttlers p)) \<and>
   throttlers (throttle type name obj p) ! length (throttlers p) =
     \<lparr>t_obj = (case obj of None \<Rightarrow> Window | Some t \<Rightarrow> t), t_evt = name,
      running = False, scheduled = 0, dispatched = []\<rparr> \<and>
   (1 \<le> n \<longrightarrow>
      listeners ((call_listener env (Func (length (throttlers p))) ^^ n)
                   (throttle type name obj p))
        = listeners (throttle type name obj p) \<and>
      dispatched (animation_frame
         (throttlers ((call_listener env (Func (length (throttlers p))) ^^ n)
                        (throttle type name obj p)) ! length (throttlers p)))
        = [(case obj of None \<Rightarrow> Window | Some t \<Rightarrow> t, name)])"
proof (intro conjI impI)
  assume a: "\<not> running t \<and> scheduled t = 0 \<and> 1 \<le> n"
  then have b: "(func ^^ n) t = t\<lparr>running := True, scheduled := Suc 0\<rparr>"
    using func_burst[of t n] by simp
  show "running ((func ^^ n) t)" "scheduled ((func ^^ n) t) = 1"
    "dispatched ((func ^^ n) t) = dispatched t"
    "dispatched (animation_frame ((func ^^ n) t)) = dispatched t @ [(t_obj t, t_evt t)]"
    "\<not> running (animation_frame ((func ^^ n) t))"
    "scheduled (animation_frame ((func ^^ n) t)) = 0"
    unfolding b by (simp_all add: animation_frame_def frame_callback_def)
next
  assume a: "running t \<and> scheduled t = 1"
  then have b: "(func ^^ n) t = t" by (simp add: func_running)
  show "(func ^^ n) t = t"
    "dispatched (animation_frame ((func ^^ n) t)) = dispatched t @ [(t_obj t, t_evt t)]"
    "\<not> running (animation_frame ((func ^^ n) t))"
    "scheduled (animation_frame ((func ^^ n) t)) = 0"
    unfolding b using a by (simp_all add: animation_frame_def frame_callback_def)
next
  let ?t = "last (throttlers (throttle type name obj p))"
  have t: "?t = \<lparr>t_obj = (case obj of None \<Rightarrow> Window | Some t \<Rightarrow> t), t_evt = name,
       running = False, scheduled = 0, dispatched = []\<rparr>"
    unfolding throttle_creates by simp
  have "(func ^^ 100) ?t = ?t\<lparr>running := True, scheduled := Suc (scheduled ?t)\<rparr>"
    by (rule func_burst) (simp_all add: t)
  then show "dispatched (animation_frame ((func ^^ 100) ?t))
     = [(case obj of None \<Rightarrow> Window | Some t \<Rightarrow> t, name)]"
    by (simp add: t animation_frame_def frame_callback_def)
next
  show "(case obj of None \<Rightarrow> Window | Some t \<Rightarrow> t, type, Func (length (throttlers p)))
     \<in> set (listeners (throttle type name obj p))"
    unfolding throttle_registers by simp
next
  show "set (listeners (throttle type name obj p)) =
     insert (case obj of None \<Rightarrow> Window | Some t \<Rightarrow> t, type, Func (length (throttlers p)))
       (set (listeners p))"
    by (rule throttle_registers)
next
  show "length (throttlers (throttle type name obj p)) = Suc (length (throttlers p))"
    unfolding throttle_creates by simp
next
  show "throttlers (throttle type name obj p) ! length (throttlers p) =
     \<lparr>t_obj = (case obj of None \<Rightarrow> Window | Some t \<Rightarrow> t), t_evt = name,
      running = False, scheduled = 0, dispatched = []\<rparr>"
    unfolding throttle_creates by simp
next
  assume n: "1 \<le> n"
  let ?q = "throttle type name obj p"
  let ?k = "length (throttlers p)"
  let ?idle = "\<lparr>t_obj = (case obj of None \<Rightarrow> Window | Some t \<Rightarrow> t), t_evt = name,
      running = False, scheduled = 0, dispatched = []\<rparr>"
  have len: "?k < length (throttlers ?q)" unfolding throttle_creates by simp
  have at: "throttlers ?q ! ?k = ?idle" unfolding throttle_creates by simp
  note c = call_Func_burst[OF len, where env = env and n = n]
  show "listeners ((call_listener env (Func ?k) ^^ n) ?q) = listeners ?q"
    using c by simp
  have "throttlers ((call_listener env (Func ?k) ^^ n) ?q) ! ?k = (func ^^ n) ?idle"
    using c len unfolding at by simp
  also have "\<dots> = ?idle\<lparr>running := True, scheduled := Suc (scheduled ?idle)\<rparr>"
    using n by (intro func_burst) simp_all
  finally show "dispatched (animation_frame
         (throttlers ((call_listener env (Func ?k) ^^ n) ?q) ! ?k))
        = [(case obj of None \<Rightarrow> Window | Some t \<Rightarrow> t, name)]"
    by (simp add: animation_frame_def frame_callback_def)
qed

theorem throttle_burst_dispatches_once_witness:
  "\<not> running \<lparr>t_obj = Window, t_evt = ''optimizedResize'', running = False, scheduled = 0,
               dispatched = []\<rparr> \<and>
   scheduled \<lparr>t_obj = Window, t_evt = ''optimizedResize'', running = False, scheduled = 0,
              dispatched = []\<rparr> = 0 \<and> (1::nat) \<le> 100 \<and>
   dispatched (animation_frame ((func ^^ 100)
      \<lparr>t_obj = Window, t_evt = ''optimizedResize'', running = False, scheduled = 0,
       dispatched = []\<rparr>)) = [(Window, ''optimizedResize'')] \<and>
   \<not> running (animation_frame ((func ^^ 100)
      \<lparr>t_obj = Window, t_evt = ''optimizedResize'', running = False, scheduled = 0,
       dispatched = []\<rparr>)) \<and>
   running \<lparr>t_obj = Window, t_evt = ''optimizedResize'', running = True, scheduled = 1,
             dispatched = []\<rparr> \<and>
   dispatched (animation_frame ((func ^^ 100)
      \<lparr>t_obj = Window, t_evt = ''optimizedResize'', running = True, scheduled = 1,
       dispatched = []\<rparr>)) = [(Window, ''optimizedResize'')] \<and>
   (Window, ''resize'', Func 0)
      \<in> set (listeners (throttle ''resize'' ''optimizedResize'' None example_page)) \<and>
   dispatched (animation_frame
      (throttlers ((call_listener (example_env []) (Func 0) ^^ 100)
                     (throttle ''resize'' ''optimizedResize'' None example_page)) ! 0))
     = [(Window, ''optimizedResize'')]"
proof -
  let ?idle = "\<lparr>t_obj = Window, t_evt = ''optimizedResize'', running = False, scheduled = 0,
                dispatched = []\<rparr>"
  let ?pending = "\<lparr>t_obj = Window, t_evt = ''optimizedResize'', running = True, scheduled = 1,
                   dispatched = []\<rparr>"
  have i: "\<not> running ?idle \<and> scheduled ?idle = 0 \<and> (1::nat) \<le> 100" by simp
  have p: "running ?pending \<and> scheduled ?pending = 1" by simp
  note a = throttle_burst_dispatches_once[of ?idle 100, THEN conjunct1, THEN mp, OF i]
  note b = throttle_burst_dispatches_once
             [of ?pending 100, THEN conjunct2, THEN conjunct1, THEN mp, OF p, THEN conjunct2]
  have z: "length (throttlers example_page) = 0" by (simp add: example_page_def)
  note r = throttle_burst_dispatches_once
             [where type = "''resize''" and name = "''optimizedResize''" and obj = None
                and p = example_page and n = 100 and env = "example_env []",
              THEN conjunct2, THEN conjunct2, THEN conjunct2, unfolded z]
  have c: "(Window, ''resize'', Func 0)
      \<in> set (listeners (throttle ''resize'' ''optimizedResize'' None example_page))"
    using r[THEN conjunct1] by simp
  have d: "dispatched (animation_frame
      (throttlers ((call_listener (example_env []) (Func 0) ^^ 100)
                     (throttle ''resize'' ''optimizedResize'' None example_page)) ! 0))
     = [(Window, ''optimizedResize'')]"
    using r[THEN conjunct2, THEN conjunct2, THEN conjunct2, THEN conjunct2] by simp
  have ab: "\<not> running ?idle \<and> scheduled ?idle = 0 \<and> (1::nat) \<le> 100 \<and>
     dispatched (animation_frame ((func ^^ 100) ?idle)) = [(Window, ''optimizedResize'')] \<and>
     \<not> running (animation_frame ((func ^^ 100) ?idle)) \<and>
     running ?pending \<and>
     dispatched (animation_frame ((func ^^ 100) ?pending)) = [(Window, ''optimizedResize'')]"
    using a b by simp
  show ?thesis using ab c d by simp
qed

section \<open>Properties of the page operations\<close>

lemma createElement_fields:
  "fst (createElement name p) = nodes p"
  "parentNode (snd (createElement name p)) = parentNode p"
  "childNodes (snd (createElement name p)) = childNodes p"
  "tagName (snd (createElement name p)) = (tagName p)(nodes p \<mapsto> name)"
  "el_style (snd (createElement name p)) = el_style p"
  "listeners (snd (createElement name p)) = listeners p"
  "timeouts (snd (createElement name p)) = timeouts p"
  "closures (snd (createElement name p)) = closures p"
  "throttlers (snd (createElement name p)) = throttlers p"
  "nodes (snd (createElement name p)) = Suc (nodes p)"
  "function_count (snd (createElement name p)) = function_count p"
  unfolding createElement_def by simp_all

lemma detach_fields:
  "tagName (detach n p) = tagName p" "el_style (detach n p) = el_style p"
  "listeners (detach n p) = listeners p" "timeouts (detach n p) = timeouts p"
  "closures (detach n p) = closures p" "throttlers (detach n p) = throttlers p"
  "nodes (detach n p) = nodes p" "function_count (detach n p) = function_count p"
  "parentNode (detach n p) = (parentNode p)(n := None)"
  unfolding detach_def by (auto split: option.splits)

lemma replaceChild_fields:
  "tagName (replaceChild par new old p) = tagName p"
  "el_style (replaceChild par new old p) = el_style p"
  "listeners (replaceChild par new old p) = listeners p"
  "timeouts (replaceChild par new old p) = timeouts p"
  "closures (replaceChild par new old p) = closures p"
  "throttlers (replaceChild par new old p) = throttlers p"
  "nodes (replaceChild par new old p) = nodes p"
  "function_count (replaceChild par new old p) = function_count p"
  "parentNode (replaceChild par new old p) = (parentNode p)(new \<mapsto> par, old := None)"
  unfolding replaceChild_def Let_def by (simp_all add: detach_fields)

lemma appendChild_fields:
  "tagName (appendChild par n p) = tagName p"
  "el_style (appendChild par n p) = el_style p"
  "listeners (appendChild par n p) = listeners p"
  "timeouts (appendChild par n p) = timeouts p"
  "closures (appendChild par n p) = closures p"
  "throttlers (appendChild par n p) = throttlers p"
  "nodes (appendChild par n p) = nodes p"
  "function_count (appendChild par n p) = function_count p"
  "parentNode (appendChild par n p) = (parentNode p)(n \<mapsto> par)"
  unfolding appendChild_def Let_def by (simp_all add: detach_fields)

lemma addEventListener_fields:
  "parentNode (addEventListener t ty f p) = parentNode p"
  "childNodes (addEventListener t ty f p) = childNodes p"
  "tagName (addEventListener t ty f p) = tagName p"
  "el_style (addEventListener t ty f p) = el_style p"
  "timeouts (addEventListener t ty f p) = timeouts p"
  "closures (addEventListener t ty f p) = closures p"
  "throttlers (addEventListener t ty f p) = throttlers p"
  "nodes (addEventListener t ty f p) = nodes p"
  "function_count (addEventListener t ty f p) = function_count p"
  "listeners (addEventListener t ty f p) =
     (if (t, ty, f) \<in> set (listeners p) then listeners p else listeners p @ [(t, ty, f)])"
  unfolding addEventListener_def by simp_all

lemma fitIt_wraps:
  assumes "style ''object-fit'' \<noteq> Some ''fill''" "parentNode p el = Some par"
    and "el_readyState env el = 0"
  shows "\<exists>q. fitIt env el style p = Inr q \<and>
           parentNode q = (parentNode p)(nodes p \<mapsto> par, el \<mapsto> nodes p) \<and>
           tagName q = (tagName p)(nodes p \<mapsto> ''object-fit'') \<and>
           nodes q = Suc (nodes p) \<and>
           closures q = closures p @ [\<lparr>c_el = el, c_style = style, c_wrap = nodes p,
                                       c_videoWidth = 0, c_videoHeight = 0\<rparr>] \<and>
           timeouts q = timeouts p"
  using assms unfolding fitIt_def
  by (simp add: Let_def split_def createElement_fields replaceChild_fields appendChild_fields
        addEventListener_fields)

section \<open>Properties of startWork\<close>

lemma startWork_zero:
  assumes c: "c < length (closures p)"
    and z: "el_videoWidth env (c_el (closures p ! c)) = 0 \<or>
            el_videoHeight env (c_el (closures p ! c)) = 0"
  shows "startWork env c p =
           p\<lparr>closures := (closures p)[c := (closures p ! c)
                   \<lparr>c_videoWidth := el_videoWidth env (c_el (closures p ! c)),
                    c_videoHeight := el_videoHeight env (c_el (closures p ! c))\<rparr>],
             timeouts := timeouts p @ [(50, StartWork c)]\<rparr>"
  using c z unfolding startWork_def setTimeout_def Let_def by auto

lemma startWork_nonzero:
  assumes c: "c < length (closures p)"
    and z: "el_videoWidth env (c_el (closures p ! c)) \<noteq> 0"
           "el_videoHeight env (c_el (closures p ! c)) \<noteq> 0"
  shows "el_style (startWork env c p) (c_el (closures p ! c)) =
           doWork (c_style (closures p ! c))
             (el_videoWidth env (c_el (closures p ! c))) (el_videoHeight env (c_el (closures p ! c)))
             (el_clientWidth env (c_wrap (closures p ! c)))
             (el_clientHeight env (c_wrap (closures p ! c)))
             (el_style p (c_el (closures p ! c)))"
    and "timeouts (startWork env c p) = timeouts p"
  using c z unfolding startWork_def doWork_of_def addEventListener_def Let_def by auto

lemma startWork_retries:
  assumes "c < length (closures p)"
    and "\<forall>env \<in> set envs. el_videoWidth env (c_el (closures p ! c)) = 0 \<or>
                            el_videoHeight env (c_el (closures p ! c)) = 0"
  shows "el_style (foldl (\<lambda>p env. startWork env c p) p envs) = el_style p \<and>
         timeouts (foldl (\<lambda>p env. startWork env c p) p envs)
           = timeouts p @ replicate (length envs) (50, StartWork c) \<and>
         c < length (closures (foldl (\<lambda>p env. startWork env c p) p envs)) \<and>
         c_el (closures (foldl (\<lambda>p env. startWork env c p) p envs) ! c) = c_el (closures p ! c) \<and>
         c_style (closures (foldl (\<lambda>p env. startWork env c p) p envs) ! c)
           = c_style (closures p ! c) \<and>
         c_wrap (closures (foldl (\<lambda>p env. startWork env c p) p envs) ! c)
           = c_wrap (closures p ! c)"
  using assms
proof (induction envs arbitrary: p)
  case Nil
  then show ?case by simp
next
  case (Cons env envs)
  let ?q = "startWork env c p"
  have z: "el_videoWidth env (c_el (closures p ! c)) = 0 \<or>
           el_videoHeight env (c_el (closures p ! c)) = 0"
    using Cons.prems(2) by simp
  note q = startWork_zero[OF Cons.prems(1) z]
  have len: "c < length (closures ?q)" unfolding q using Cons.prems(1) by simp
  have el: "c_el (closures ?q ! c) = c_el (closures p ! c)"
    "c_style (closures ?q ! c) = c_style (closures p ! c)"
    "c_wrap (closures ?q ! c) = c_wrap (closures p ! c)"
    unfolding q using Cons.prems(1) by simp_all
  have rest: "\<forall>env \<in> set envs. el_videoWidth env (c_el (closures ?q ! c)) = 0 \<or>
                            el_videoHeight env (c_el (closures ?q ! c)) = 0"
    unfolding el using Cons.prems(2) by simp
  have st: "el_style ?q = el_style p" and ti: "timeouts ?q = timeouts p @ [(50, StartWork c)]"
    unfolding q by simp_all
  from Cons.IH[OF len rest] show ?case
    unfolding st ti el by (simp add: replicate_append_same)
qed

lemma example_fitted_fields:
  "closures example_fitted =
     [\<lparr>c_el = 1, c_style = [''object-fit'' \<mapsto> ''cover''], c_wrap = 2,
       c_videoWidth = 0, c_videoHeight = 0\<rparr>]"
  "timeouts example_fitted = []"
  "parentNode example_fitted 1 = Some 2"
  "tagName example_fitted 2 = Some ''object-fit''"
proof -
  have a: "[''object-fit'' \<mapsto> ''cover''] ''object-fit'' \<noteq> Some ''fill''" by simp
  have b: "parentNode example_page 1 = Some 0" by (simp add: example_page_def)
  have c: "el_readyState (example_env ''object-fit: cover'') 1 = 0" by (simp add: example_env_def)
  obtain q where q: "fitIt (example_env ''object-fit: cover'') 1 [''object-fit'' \<mapsto> ''cover'']
        example_page = Inr q"
    "parentNode q = (parentNode example_page)(nodes example_page \<mapsto> 0, 1 \<mapsto> nodes example_page)"
    "tagName q = (tagName example_page)(nodes example_page \<mapsto> ''object-fit'')"
    "closures q = closures example_page @
       [\<lparr>c_el = 1, c_style = [''object-fit'' \<mapsto> ''cover''], c_wrap = nodes example_page,
         c_videoWidth = 0, c_videoHeight = 0\<rparr>]"
    "timeouts q = timeouts example_page"
    using fitIt_wraps[of "[''object-fit'' \<mapsto> ''cover'']" example_page 1 0
        "example_env ''object-fit: cover''", OF a b c] by blast
  have e: "example_fitted = q" unfolding example_fitted_def q(1) by simp
  show "closures example_fitted =
     [\<lparr>c_el = 1, c_style = [''object-fit'' \<mapsto> ''cover''], c_wrap = 2,
       c_videoWidth = 0, c_videoHeight = 0\<rparr>]"
    "timeouts example_fitted = []"
    "parentNode example_fitted 1 = Some 2"
    "tagName example_fitted 2 = Some ''object-fit''"
    unfolding e q by (simp_all add: example_page_def)
qed

text \<open>
  Claim C6. Whenever \<open>startWork\<close> reads an intrinsic width or height of zero it schedules
  itself again after 50 time units and changes no style; this repeats for as long as a
  dimension is zero, and the styles are first changed by the run that reads both
  dimensions nonzero.
\<close>

theorem startWork_waits_for_dimensions:
  assumes "c < length (closures p)"
  shows "(el_videoWidth env (c_el (closures p ! c)) = 0 \<or>
          el_videoHeight env (c_el (closures p ! c)) = 0 \<longrightarrow>
            el_style (startWork env c p) = el_style p \<and>
            timeouts (startWork env c p) = timeouts p @ [(50, StartWork c)] \<and>
            listeners (startWork env c p) = listeners p) \<and>
         ((\<forall>e \<in> set envs. el_videoWidth e (c_el (closures p ! c)) = 0 \<or>
                          el_videoHeight e (c_el (closures p ! c)) = 0) \<longrightarrow>
            el_style (foldl (\<lambda>p e. startWork e c p) p envs) = el_style p \<and>
            timeouts (foldl (\<lambda>p e. startWork e c p) p envs)
              = timeouts p @ replicate (length envs) (50, StartWork c) \<and>
            (el_videoWidth env (c_el (closures p ! c)) \<noteq> 0 \<and>
             el_videoHeight env (c_el (closures p ! c)) \<noteq> 0 \<longrightarrow>
               el_style (startWork env c (foldl (\<lambda>p e. startWork e c p) p envs))
                        (c_el (closures p ! c)) =
               doWork (c_style (closures p ! c))
                 (el_videoWidth env (c_el (closures p ! c)))
                 (el_videoHeight env (c_el (closures p ! c)))
                 (el_clientWidth env (c_wrap (closures p ! c)))
                 (el_clientHeight env (c_wrap (closures p ! c)))
                 (el_style p (c_el (closures p ! c)))))"
proof (intro conjI impI)
  assume z: "el_videoWidth env (c_el (closures p ! c)) = 0 \<or>
             el_videoHeight env (c_el (closures p ! c)) = 0"
  note q = startWork_zero[OF assms z]
  show "el_style (startWork env c p) = el_style p"
    "timeouts (startWork env c p) = timeouts p @ [(50, StartWork c)]"
    "listeners (startWork env c p) = listeners p"
    unfolding q by simp_all
next
  assume z: "\<forall>e \<in> set envs. el_videoWidth e (c_el (closures p ! c)) = 0 \<or>
                          el_videoHeight e (c_el (closures p ! c)) = 0"
  note r = startWork_retries[OF assms z]
  show "el_style (foldl (\<lambda>p e. startWork e c p) p envs) = el_style p"
    "timeouts (foldl (\<lambda>p e. startWork e c p) p envs)
       = timeouts p @ replicate (length envs) (50, StartWork c)"
    using r by simp_all
  assume nz: "el_videoWidth env (c_el (closures p ! c)) \<noteq> 0 \<and>
              el_videoHeight env (c_el (closures p ! c)) \<noteq> 0"
  let ?q = "foldl (\<lambda>p e. startWork e c p) p envs"
  have len: "c < length (closures ?q)" using r by simp
  have el: "c_el (closures ?q ! c) = c_el (closures p ! c)"
    "c_style (closures ?q ! c) = c_style (closures p ! c)"
    "c_wrap (closures ?q ! c) = c_wrap (closures p ! c)"
    "el_style ?q = el_style p"
    using r by simp_all
  show "el_style (startWork env c ?q) (c_el (closures p ! c)) =
        doWork (c_style (closures p ! c))
          (el_videoWidth env (c_el (closures p ! c)))
          (el_videoHeight env (c_el (closures p ! c)))
          (el_clientWidth env (c_wrap (closures p ! c)))
          (el_clientHeight env (c_wrap (closures p ! c)))
          (el_style p (c_el (closures p ! c)))"
    using startWork_nonzero(1)[of c ?q env] len nz unfolding el by simp
qed

theorem startWork_waits_for_dimensions_witness:
  "0 < length (closures example_fitted) \<and>
   el_videoWidth (example_env []) (c_el (closures example_fitted ! 0)) = 0 \<and>
   el_videoWidth ((example_env [])\<lparr>el_videoWidth := \<lambda>n. 1920, el_videoHeight := \<lambda>n. 1080\<rparr>)
      (c_el (closures example_fitted ! 0)) \<noteq> 0 \<and>
   el_videoHeight ((example_env [])\<lparr>el_videoWidth := \<lambda>n. 1920, el_videoHeight := \<lambda>n. 1080\<rparr>)
      (c_el (closures example_fitted ! 0)) \<noteq> 0 \<and>
   el_style (startWork (example_env []) 0 example_fitted) = el_style example_fitted \<and>
   timeouts (startWork (example_env []) 0 example_fitted) = [(50, StartWork 0)] \<and>
   timeouts (foldl (\<lambda>p e. startWork e 0 p) example_fitted [example_env [], example_env []])
     = [(50, StartWork 0), (50, StartWork 0)] \<and>
   el_style (startWork ((example_env [])\<lparr>el_videoWidth := \<lambda>n. 1920, el_videoHeight := \<lambda>n. 1080\<rparr>) 0
       (foldl (\<lambda>p e. startWork e 0 p) example_fitted [example_env [], example_env []])) 1
     = doWork [''object-fit'' \<mapsto> ''cover''] 1920 1080 400 300 (el_style example_fitted 1)"
proof -
  have len: "0 < length (closures example_fitted)" by (simp add: example_fitted_fields)
  note t0 = startWork_waits_for_dimensions[OF len, of "example_env []" "[example_env [], example_env []]"]
  note t1 = startWork_waits_for_dimensions[OF len,
      of "(example_env [])\<lparr>el_videoWidth := \<lambda>n. 1920, el_videoHeight := \<lambda>n. 1080\<rparr>"
         "[example_env [], example_env []]"]
  show ?thesis using len t0 t1
    by (simp add: example_fitted_fields example_env_def)
qed

section \<open>Properties of initialize\<close>

lemma getProps_no_match: "exec s = None \<Longrightarrow> getProps props s = props"
  by (subst getProps.simps) simp

lemma strip_prefix_prefix: "strip_prefix p s = Some t \<Longrightarrow> s = p @ t"
  by (induction p arbitrary: s) (auto split: list.splits if_splits)

lemma match_name_sublist: "match_name name s = Some m \<Longrightarrow> sublist name s"
  unfolding match_name_def
  by (auto split: option.splits dest!: strip_prefix_prefix)

lemma exec_without_names:
  "\<not> sublist ''object-fit'' s \<Longrightarrow> \<not> sublist ''object-position'' s \<Longrightarrow> exec s = None"
proof (induction s)
  case Nil
  then show ?case by simp
next
  case (Cons c cs)
  have "match_here (c # cs) = None"
    using Cons.prems match_name_sublist unfolding match_here_def
    by (fastforce split: option.splits)
  moreover have "exec cs = None"
    using Cons by (simp add: sublist_Cons_right)
  ultimately show ?case by simp
qed

lemma getStyle_untagged:
  "exec (el_fontFamily env el) = None \<Longrightarrow> getStyle env el = Inr Map.empty"
  unfolding getStyle_def Let_def by (simp add: getProps_no_match truthy_def)

lemma each_video_untagged:
  "exec (el_fontFamily env el) = None \<Longrightarrow>
   each_video env (Some el # rest) p = each_video env rest p"
  by (simp add: getStyle_untagged truthy_def)

lemma fitIt_fill: "style ''object-fit'' = Some ''fill'' \<Longrightarrow> fitIt env el style p = Inr p"
  unfolding fitIt_def by simp

lemma each_video_fill:
  assumes "getStyle env el = Inr style" "style ''object-fit'' = Some ''fill''"
  shows "each_video env (Some el # rest) p = each_video env rest p"
  using assms by (simp add: fitIt_fill Let_def truthy_def)

lemma each_video_default_fill:
  assumes "getStyle env el = Inr style" "\<not> truthy (style ''object-fit'')"
    "truthy (style ''object-position'')"
  shows "each_video env (Some el # rest) p = each_video env rest p"
  using assms by (auto simp: fitIt_fill Let_def truthy_def split: option.splits)

lemma initialize_Single: "initialize env (Single el) p = each_video env [Some el] p"
  unfolding initialize_def by simp

lemma throttle_fields:
  "parentNode (throttle type name obj p) = parentNode p"
  "childNodes (throttle type name obj p) = childNodes p"
  "tagName (throttle type name obj p) = tagName p"
  "el_style (throttle type name obj p) = el_style p"
  "timeouts (throttle type name obj p) = timeouts p"
  "closures (throttle type name obj p) = closures p"
  "nodes (throttle type name obj p) = nodes p"
  "filter (\<lambda>l. fst l \<noteq> Window) (listeners (throttle type name None p))
     = filter (\<lambda>l. fst l \<noteq> Window) (listeners p)"
  "set (listeners (throttle type name None p))
     = insert (Window, type, Func (length (throttlers p))) (set (listeners p))"
  unfolding throttle_def Let_def by (auto simp: addEventListener_fields)

lemma example_exec: "exec ''Arial'' = None"
  by code_simp

lemma example_getStyle_fill:
  "getStyle (example_env ''object-fit: fill'') 1 = Inr (getProps Map.empty ''object-fit: fill'')"
  using getStyle_without_position[of "example_env ''object-fit: fill''" 1]
  by (simp add: example_env_def example_props)

lemma example_getStyle_position:
  "getStyle (example_env ''object-position: left'') 1 =
     Inr ((getProps Map.empty ''object-position: left'')
            (''object-position-x'' \<mapsto> spec_positionX ''left'',
             ''object-position-y'' \<mapsto> spec_positionY ''left''))"
  using getStyle_with_position[of "example_env ''object-position: left''" 1 "''left''"]
  by (simp add: example_env_def example_props)

lemma not_wrapped_example: "\<not> wrapped example_page 1"
  by (simp add: wrapped_def example_page_def)

lemma wrapped_example: "wrapped example_fitted 1"
  unfolding wrapped_def example_fitted_fields(3) by (simp add: example_fitted_fields(4))

text \<open>
  Claim C4, as amended. For a fit of \<open>fill\<close>, declared or taken as the default when only
  an \<open>object-position\<close> is declared, \<open>fitIt\<close> returns at once: no sizing, no wrapper, no
  listener; the page is unchanged.
\<close>

theorem fitIt_fill_leaves_page_unchanged:
  "(style ''object-fit'' = Some ''fill'' \<longrightarrow> fitIt env el style p = Inr p) \<and>
   (getStyle env el = Inr style \<and> style ''object-fit'' = Some ''fill'' \<longrightarrow>
      initialize env (Single el) p = Inr p) \<and>
   (getStyle env el = Inr style \<and> \<not> truthy (style ''object-fit'') \<and>
    truthy (style ''object-position'') \<longrightarrow>
      initialize env (Single el) p = Inr p)"
  using fitIt_fill[of style env el p] each_video_fill[of env el style "[]" p]
    each_video_default_fill[of env el style "[]" p]
  by (simp add: initialize_Single)

theorem fitIt_fill_leaves_page_unchanged_witness:
  "getStyle (example_env ''object-fit: fill'') 1 = Inr (getProps Map.empty ''object-fit: fill'') \<and>
   getProps Map.empty ''object-fit: fill'' ''object-fit'' = Some ''fill'' \<and>
   fitIt (example_env ''object-fit: fill'') 1 (getProps Map.empty ''object-fit: fill'') example_page
     = Inr example_page \<and>
   initialize (example_env ''object-fit: fill'') (Single 1) example_page = Inr example_page \<and>
   getStyle (example_env ''object-position: left'') 1 =
     Inr ((getProps Map.empty ''object-position: left'')
            (''object-position-x'' \<mapsto> spec_positionX ''left'',
             ''object-position-y'' \<mapsto> spec_positionY ''left'')) \<and>
   \<not> truthy (((getProps Map.empty ''object-position: left'')
            (''object-position-x'' \<mapsto> spec_positionX ''left'',
             ''object-position-y'' \<mapsto> spec_positionY ''left'')) ''object-fit'') \<and>
   truthy (((getProps Map.empty ''object-position: left'')
            (''object-position-x'' \<mapsto> spec_positionX ''left'',
             ''object-position-y'' \<mapsto> spec_positionY ''left'')) ''object-position'') \<and>
   initialize (example_env ''object-position: left'') (Single 1) example_page = Inr example_page"
  using fitIt_fill_leaves_page_unchanged
          [of "getProps Map.empty ''object-fit: fill''" "example_env ''object-fit: fill''" 1
              example_page]
        fitIt_fill_leaves_page_unchanged
          [of "(getProps Map.empty ''object-position: left'')
                 (''object-position-x'' \<mapsto> spec_positionX ''left'',
                  ''object-position-y'' \<mapsto> spec_positionY ''left'')"
              "example_env ''object-position: left''" 1 example_page]
        example_getStyle_fill example_getStyle_position
  by (simp add: example_props truthy_def)

theorem fill_is_still_wrapped_counterexample:
  "initialize (example_env ''object-fit: fill'') (Single 1) example_page = Inr example_page \<and>
   initialize (example_env ''object-position: left'') (Single 1) example_page = Inr example_page \<and>
   \<not> wrapped example_page 1"
proof -
  have a: "initialize (example_env ''object-fit: fill'') (Single 1) example_page = Inr example_page"
    unfolding initialize_Single
    using each_video_fill[OF example_getStyle_fill example_props(5), of "[]" example_page]
    by simp
  have b: "initialize (example_env ''object-position: left'') (Single 1) example_page
             = Inr example_page"
    unfolding initialize_Single
    using each_video_default_fill[OF example_getStyle_position, of "[]" example_page]
    by (simp add: example_props truthy_def)
  show ?thesis using a b not_wrapped_example by simp
qed

lemma objectFitVideos_unsupported:
  "\<not> supportsObjectFit env \<or> \<not> supportsObjectPosition env \<Longrightarrow>
   objectFitVideos env videos p =
     (case initialize env videos p of
        Inl e \<Rightarrow> Inl e
      | Inr q \<Rightarrow> Inr (throttle ''resize'' ''optimizedResize'' None q))"
  unfolding objectFitVideos_def by auto

lemma initialize_untagged:
  "exec (el_fontFamily env el) = None \<Longrightarrow> initialize env (Single el) p = Inr p"
  unfolding initialize_Single by (simp only: each_video_untagged each_video.simps(1))

text \<open>
  Claim C5, as amended. For an element whose font family holds neither an
  \<open>object-fit\<close> nor an \<open>object-position\<close> declaration, the element is skipped: no
  wrapper is inserted, no listener is attached to it, no timer is set, and its place in
  the DOM and its styles are unchanged. The entry point as a whole still registers the
  throttler's \<open>resize\<close> listener on the window when the platform lacks native support;
  that is its only effect.
\<close>

theorem untagged_element_is_skipped:
  assumes "exec (el_fontFamily env el) = None"
  shows "initialize env (Single el) p = Inr p \<and>
         each_video env (Some el # rest) p = each_video env rest p \<and>
         (supportsObjectFit env \<and> supportsObjectPosition env \<longrightarrow>
            objectFitVideos env (Single el) p = Inr p) \<and>
         (\<not> supportsObjectFit env \<or> \<not> supportsObjectPosition env \<longrightarrow>
            (\<exists>q. objectFitVideos env (Single el) p = Inr q \<and>
                 parentNode q = parentNode p \<and> childNodes q = childNodes p \<and>
                 tagName q = tagName p \<and> nodes q = nodes p \<and> el_style q = el_style p \<and>
                 timeouts q = timeouts p \<and> closures q = closures p \<and>
                 filter (\<lambda>l. fst l \<noteq> Window) (listeners q)
                   = filter (\<lambda>l. fst l \<noteq> Window) (listeners p) \<and>
                 set (listeners q)
                   = insert (Window, ''resize'', Func (length (throttlers p))) (set (listeners p))))"
proof (intro conjI impI)
  show i: "initialize env (Single el) p = Inr p" by (rule initialize_untagged[OF assms])
  show "each_video env (Some el # rest) p = each_video env rest p"
    by (rule each_video_untagged[OF assms])
  show "objectFitVideos env (Single el) p = Inr p"
    if "supportsObjectFit env \<and> supportsObjectPosition env"
    using that unfolding objectFitVideos_def by simp
  show "\<exists>q. objectFitVideos env (Single el) p = Inr q \<and>
                 parentNode q = parentNode p \<and> childNodes q = childNodes p \<and>
                 tagName q = tagName p \<and> nodes q = nodes p \<and> el_style q = el_style p \<and>
                 timeouts q = timeouts p \<and> closures q = closures p \<and>
                 filter (\<lambda>l. fst l \<noteq> Window) (listeners q)
                   = filter (\<lambda>l. fst l \<noteq> Window) (listeners p) \<and>
                 set (listeners q)
                   = insert (Window, ''resize'', Func (length (throttlers p))) (set (listeners p))"
    if "\<not> supportsObjectFit env \<or> \<not> supportsObjectPosition env"
    unfolding objectFitVideos_unsupported[OF that] i
    by (simp add: throttle_fields)
qed

theorem untagged_element_is_skipped_witness:
  "exec (el_fontFamily (example_env ''Arial'') 1) = None \<and>
   supportsObjectFit (example_env ''Arial'') = False \<and>
   initialize (example_env ''Arial'') (Single 1) example_page = Inr example_page \<and>
   (\<exists>q. objectFitVideos (example_env ''Arial'') (Single 1) example_page = Inr q \<and>
        parentNode q = parentNode example_page \<and> el_style q = el_style example_page \<and>
        filter (\<lambda>l. fst l \<noteq> Window) (listeners q) = [])"
proof -
  have h: "exec (el_fontFamily (example_env ''Arial'') 1) = None"
    by (simp del: exec.simps add: example_env_def example_exec)
  have u: "\<not> supportsObjectFit (example_env ''Arial'') \<or> \<not> supportsObjectPosition (example_env ''Arial'')"
    by (simp add: example_env_def)
  note t = untagged_element_is_skipped[OF h, of example_page "[]"]
  obtain q where "objectFitVideos (example_env ''Arial'') (Single 1) example_page = Inr q"
    "parentNode q = parentNode example_page" "el_style q = el_style example_page"
    "filter (\<lambda>l. fst l \<noteq> Window) (listeners q)
       = filter (\<lambda>l. fst l \<noteq> Window) (listeners example_page)"
    using t u by blast
  then have "\<exists>q. objectFitVideos (example_env ''Arial'') (Single 1) example_page = Inr q \<and>
        parentNode q = parentNode example_page \<and> el_style q = el_style example_page \<and>
        filter (\<lambda>l. fst l \<noteq> Window) (listeners q) = []"
    by (simp add: example_page_def)
  moreover have "supportsObjectFit (example_env ''Arial'') = False"
    by (simp add: example_env_def)
  ultimately show ?thesis using h t by blast
qed

theorem untagged_element_no_listener_counterexample:
  "exec (el_fontFamily (example_env ''Arial'') 1) = None \<and>
   listeners example_page = [] \<and>
   map_sum id listeners (objectFitVideos (example_env ''Arial'') (Single 1) example_page)
     = Inr [(Window, ''resize'', Func 0)]"
proof -
  have h: "exec (el_fontFamily (example_env ''Arial'') 1) = None"
    by (simp del: exec.simps add: example_env_def example_exec)
  have u: "\<not> supportsObjectFit (example_env ''Arial'') \<or> \<not> supportsObjectPosition (example_env ''Arial'')"
    by (simp add: example_env_def)
  have "objectFitVideos (example_env ''Arial'') (Single 1) example_page
          = Inr (throttle ''resize'' ''optimizedResize'' None example_page)"
    unfolding objectFitVideos_unsupported[OF u] initialize_untagged[OF h] by simp
  moreover have "listeners (throttle ''resize'' ''optimizedResize'' None example_page)
          = [(Window, ''resize'', Func 0)]"
    unfolding throttle_def Let_def by (simp add: addEventListener_fields example_page_def)
  moreover have "listeners example_page = []" by (simp add: example_page_def)
  ultimately show ?thesis using h by simp
qed

text \<open>
  Claim C9, as amended. Called with a non-empty string, \<open>initialize\<close> passes it to
  \<open>querySelectorAll\<close> and goes through every matched element in order; called with no
  argument, or with the empty string, it does what it does for the string \<open>video\<close>. The
  entry point calls \<open>initialize\<close> when the platform lacks native support.
\<close>

theorem initialize_selector_string:
  "(s \<noteq> [] \<longrightarrow>
      initialize env (Selector s) p =
        (case querySelectorAll env s of
           Inl e \<Rightarrow> Inl e
         | Inr ns \<Rightarrow> each_video env (map Some ns) p)) \<and>
   initialize env Undefined p = initialize env (Selector ''video'') p \<and>
   initialize env (Selector []) p = initialize env (Selector ''video'') p \<and>
   each_video env (map Some (n # ns)) p =
     (case each_video env [Some n] p of
        Inl e \<Rightarrow> Inl e
      | Inr q \<Rightarrow> each_video env (map Some ns) q) \<and>
   (\<not> supportsObjectFit env \<or> \<not> supportsObjectPosition env \<longrightarrow>
      objectFitVideos env videos p =
        (case initialize env videos p of
           Inl e \<Rightarrow> Inl e
         | Inr q \<Rightarrow> Inr (throttle ''resize'' ''optimizedResize'' None q)))"
proof (intro conjI impI)
  show "initialize env (Selector s) p =
        (case querySelectorAll env s of
           Inl e \<Rightarrow> Inl e
         | Inr ns \<Rightarrow> each_video env (map Some ns) p)" if "s \<noteq> []"
    using that unfolding initialize_def by simp
  show "initialize env Undefined p = initialize env (Selector ''video'') p"
    unfolding initialize_def by simp
  show "initialize env (Selector []) p = initialize env (Selector ''video'') p"
    unfolding initialize_def by simp
  show "each_video env (map Some (n # ns)) p =
     (case each_video env [Some n] p of
        Inl e \<Rightarrow> Inl e
      | Inr q \<Rightarrow> each_video env (map Some ns) q)"
    by (auto simp: Let_def split: sum.splits)
  show "objectFitVideos env videos p =
        (case initialize env videos p of
           Inl e \<Rightarrow> Inl e
         | Inr q \<Rightarrow> Inr (throttle ''resize'' ''optimizedResize'' None q))"
    if "\<not> supportsObjectFit env \<or> \<not> supportsObjectPosition env"
    by (rule objectFitVideos_unsupported[OF that])
qed

theorem initialize_selector_string_witness:
  "''video'' \<noteq> [] \<and>
   supportsObjectFit (example_env ''Arial'') = False \<and>
   initialize (example_env ''Arial'') (Selector ''video'') example_page
     = each_video (example_env ''Arial'') [Some 1] example_page \<and>
   initialize (example_env ''Arial'') Undefined example_page
     = each_video (example_env ''Arial'') [Some 1] example_page \<and>
   objectFitVideos (example_env ''Arial'') (Selector ''video'') example_page =
     (case initialize (example_env ''Arial'') (Selector ''video'') example_page of
        Inl e \<Rightarrow> Inl e
      | Inr q \<Rightarrow> Inr (throttle ''resize'' ''optimizedResize'' None q))"
proof -
  have u: "\<not> supportsObjectFit (example_env ''Arial'') \<or> \<not> supportsObjectPosition (example_env ''Arial'')"
    by (simp add: example_env_def)
  have q: "querySelectorAll (example_env ''Arial'') ''video'' = Inr [1]"
    by (simp add: example_env_def)
  note t = initialize_selector_string
     [of "''video''" "example_env ''Arial''" example_page 1 "[]" "Selector ''video''"]
  have a: "initialize (example_env ''Arial'') (Selector ''video'') example_page
     = each_video (example_env ''Arial'') [Some 1] example_page"
    using t unfolding q by simp
  have b: "initialize (example_env ''Arial'') Undefined example_page
     = each_video (example_env ''Arial'') [Some 1] example_page"
    using t a by simp
  have f: "supportsObjectFit (example_env ''Arial'') = False"
    by (simp add: example_env_def)
  show ?thesis using u f a b t by simp
qed

theorem empty_string_is_not_queried_counterexample:
  "querySelectorAll (example_env ''Arial'') [] = Inl SyntaxError \<and>
   initialize (example_env ''Arial'') (Selector []) example_page = Inr example_page"
proof -
  have h: "exec (el_fontFamily (example_env ''Arial'') 1) = None"
    by (simp del: exec.simps add: example_env_def example_exec)
  have "initialize (example_env ''Arial'') (Selector []) example_page
          = each_video (example_env ''Arial'') [Some 1] example_page"
    unfolding initialize_def by (simp add: example_env_def)
  also have "\<dots> = Inr example_page"
    by (simp only: each_video_untagged[OF h] each_video.simps(1))
  finally show ?thesis by (simp add: example_env_def)
qed

end
